theory Spec2Isabelle
  imports Main
begin

unbundle bit_operations_syntax

section \<open>Go values used by the formatter\<close>

text \<open>
  A Go \<open>string\<close> and a \<open>[]byte\<close> are byte sequences: both are modelled as
  \<open>char list\<close> (an Isabelle \<open>char\<close> is one byte). A Go \<open>int\<close> is modelled as
  \<open>int\<close>: no operation of the formatter overflows 64 bits on the values it
  receives. A run-time panic of the source is the \<open>Inl\<close> branch of a sum.
\<close>

datatype panic = IndexOutOfRange | SliceBoundsOutOfRange

definition bnd :: "panic + 'a \<Rightarrow> ('a \<Rightarrow> panic + 'b) \<Rightarrow> panic + 'b" where
  "bnd m k = (case m of Inl e \<Rightarrow> Inl e | Inr x \<Rightarrow> k x)"

text \<open>\<open>xs[i]\<close> as an expression: panics outside \<open>0 \<le> i < len(xs)\<close>.\<close>

definition index :: "'a list \<Rightarrow> int \<Rightarrow> panic + 'a" where
  "index xs i = (if 0 \<le> i \<and> i < int (length xs) then Inr (xs ! nat i) else Inl IndexOutOfRange)"

text \<open>\<open>xs[i] = v\<close>: panics outside \<open>0 \<le> i < len(xs)\<close>.\<close>

definition store :: "'a list \<Rightarrow> int \<Rightarrow> 'a \<Rightarrow> panic + 'a list" where
  "store xs i v = (if 0 \<le> i \<and> i < int (length xs) then Inr (xs[nat i := v]) else Inl IndexOutOfRange)"

text \<open>\<open>xs[:n]\<close> and \<open>xs[i:]\<close> on a string or on a slice whose capacity is its length.\<close>

definition slice_to :: "'a list \<Rightarrow> int \<Rightarrow> panic + 'a list" where
  "slice_to xs n = (if 0 \<le> n \<and> n \<le> int (length xs) then Inr (take (nat n) xs) else Inl SliceBoundsOutOfRange)"

definition slice_from :: "'a list \<Rightarrow> int \<Rightarrow> panic + 'a list" where
  "slice_from xs i = (if 0 \<le> i \<and> i \<le> int (length xs) then Inr (drop (nat i) xs) else Inl SliceBoundsOutOfRange)"

text \<open>Go's \<open>/\<close> and \<open>%\<close> on \<open>int\<close> truncate towards zero.\<close>

definition quo :: "int \<Rightarrow> int \<Rightarrow> int" where
  "quo a b = sgn a * sgn b * (\<bar>a\<bar> div \<bar>b\<bar>)"

definition rem :: "int \<Rightarrow> int \<Rightarrow> int" where
  "rem a b = sgn a * (\<bar>a\<bar> mod \<bar>b\<bar>)"

text \<open>\<open>byte(x)\<close> of an \<open>int\<close> or a \<open>rune\<close> keeps the low eight bits.\<close>

definition byte :: "int \<Rightarrow> char" where
  "byte x = char_of (x mod 256)"

section \<open>Severity (factorlog.go)\<close>

type_synonym Severity = int

definition NONE :: Severity where "NONE = 0"
definition TRACE :: Severity where "TRACE = 1"
definition DEBUG :: Severity where "DEBUG = 2"
definition INFO :: Severity where "INFO = 3"
definition WARN :: Severity where "WARN = 4"
definition ERROR :: Severity where "ERROR = 5"
definition CRITICAL :: Severity where "CRITICAL = 6"
definition STACK :: Severity where "STACK = 7"
definition FATAL :: Severity where "FATAL = 8"
definition PANIC :: Severity where "PANIC = 9"

definition SeverityStrings :: "string list" where
  "SeverityStrings = ['''', ''TRAC'', ''DEBG'', ''INFO'', ''WARN'', ''EROR'', ''CRIT'', ''STAK'', ''FATL'', ''PANC'']"

definition LongSeverityStrings :: "string list" where
  "LongSeverityStrings =
    [''NONE'', ''TRACE'', ''DEBUG'', ''INFO'', ''WARN'', ''ERROR'', ''CRITICAL'', ''STACK'', ''FATAL'', ''PANIC'']"

definition SeverityFromString :: "string \<Rightarrow> Severity" where
  "SeverityFromString l =
    (if l = ''TRACE'' then TRACE
     else if l = ''DEBUG'' then DEBUG
     else if l = ''INFO'' then INFO
     else if l = ''WARN'' then WARN
     else if l = ''ERROR'' then ERROR
     else if l = ''CRITICAL'' then CRITICAL
     else if l = ''STACK'' then STACK
     else if l = ''FATAL'' then FATAL
     else if l = ''PANIC'' then PANIC
     else NONE)"

section \<open>Numeric encoder\<close>

definition digits :: string where
  "digits = ''0123456789''"

text \<open>\<open>twoDigits(buf, i, d)\<close>: the two low decimal digits of \<open>d\<close> at \<open>buf[i]\<close>, \<open>buf[i+1]\<close>.\<close>

definition twoDigits :: "string \<Rightarrow> int \<Rightarrow> int \<Rightarrow> panic + string" where
  "twoDigits buf i d =
     bnd (index digits (rem d 10)) (\<lambda>c1.
     bnd (store buf (i + 1) c1) (\<lambda>buf1.
     bnd (index digits (rem (quo d 10) 10)) (\<lambda>c0.
     store buf1 i c0)))"

text \<open>\<open>nDigits(buf, n, i, d)\<close>: the loop \<open>for j := n - 1; j >= 0; j--\<close>.\<close>

function nDigits_loop :: "string \<Rightarrow> int \<Rightarrow> int \<Rightarrow> int \<Rightarrow> panic + string" where
  "nDigits_loop buf i j d =
     (if j \<ge> 0 then
        (case index digits (rem d 10) of
           Inl e \<Rightarrow> Inl e
         | Inr c \<Rightarrow>
             (case store buf (i + j) c of
                Inl e \<Rightarrow> Inl e
              | Inr buf' \<Rightarrow> nDigits_loop buf' i (j - 1) (quo d 10)))
      else Inr buf)"
  by pat_completeness auto
termination
  by (relation "measure (\<lambda>(buf, i, j, d). nat (j + 1))") auto

definition nDigits :: "string \<Rightarrow> int \<Rightarrow> int \<Rightarrow> int \<Rightarrow> panic + string" where
  "nDigits buf n i d = nDigits_loop buf i (n - 1) d"

definition ddigits :: string where
  "ddigits = ''0001020304050607080910111213141516171819'' @
             ''2021222324252627282930313233343536373839'' @
             ''4041424344454647484950515253545556575859'' @
             ''6061626364656667686970717273747576777879'' @
             ''8081828384858687888990919293949596979899''"

text \<open>
  \<open>copy(buf[i:], buf[j:])\<close> inside one buffer: both slice expressions are evaluated
  (and may panic), then \<open>min(len(buf) - i, len(buf) - j)\<close> bytes move from \<open>j\<close> to
  \<open>i\<close> as if through a temporary; the number of bytes moved is returned.
\<close>

definition copy_within :: "string \<Rightarrow> int \<Rightarrow> int \<Rightarrow> panic + (string \<times> int)" where
  "copy_within buf i j =
     bnd (slice_from buf i) (\<lambda>dst.
     bnd (slice_from buf j) (\<lambda>src.
       let n = min (length dst) (length src)
       in Inr (take (nat i) buf @ take n src @ drop n dst, int n)))"

text \<open>The loop \<open>for d >= 100\<close> of \<open>itoa\<close>; it returns the buffer, \<open>j\<close> and the rest of \<open>d\<close>.\<close>

function itoa_loop :: "string \<Rightarrow> int \<Rightarrow> int \<Rightarrow> panic + (string \<times> int \<times> int)" where
  "itoa_loop buf j d =
     (if d \<ge> 100 then
        (case index ddigits (rem d 100 * 2 + 1) of
           Inl e \<Rightarrow> Inl e
         | Inr c1 \<Rightarrow>
        (case store buf (j - 1) c1 of
           Inl e \<Rightarrow> Inl e
         | Inr buf1 \<Rightarrow>
        (case index ddigits (rem d 100 * 2) of
           Inl e \<Rightarrow> Inl e
         | Inr c0 \<Rightarrow>
        (case store buf1 (j - 2) c0 of
           Inl e \<Rightarrow> Inl e
         | Inr buf2 \<Rightarrow> itoa_loop buf2 (j - 2) (quo d 100)))))
      else Inr (buf, j, d))"
  by pat_completeness auto
termination
  by (relation "measure (\<lambda>(buf, j, d). nat d)") (auto simp: quo_def)

definition itoa :: "string \<Rightarrow> int \<Rightarrow> int \<Rightarrow> panic + (string \<times> int)" where
  "itoa buf i d =
     bnd (itoa_loop buf (int (length buf)) d) (\<lambda>(buf1, j, d1).
       if d1 < 10 then
         bnd (store buf1 (j - 1) (byte (48 + d1))) (\<lambda>buf2.
         copy_within buf2 i (j - 1))
       else
         bnd (index ddigits (d1 * 2 + 1)) (\<lambda>c1.
         bnd (store buf1 (j - 1) c1) (\<lambda>buf2.
         bnd (index ddigits (d1 * 2)) (\<lambda>c0.
         bnd (store buf2 (j - 2) c0) (\<lambda>buf3.
         copy_within buf3 i (j - 2))))))"

text \<open>The reference encoder \<open>allDigits\<close> of the benchmarks: one digit per iteration.\<close>

function allDigits_loop :: "string \<Rightarrow> int \<Rightarrow> int \<Rightarrow> panic + (string \<times> int)" where
  "allDigits_loop buf j d =
     (case index digits (rem d 10) of
        Inl e \<Rightarrow> Inl e
      | Inr c \<Rightarrow>
     (case store buf (j - 1) c of
        Inl e \<Rightarrow> Inl e
      | Inr buf' \<Rightarrow>
          if quo d 10 = 0 then Inr (buf', j - 1)
          else allDigits_loop buf' (j - 1) (quo d 10)))"
  by pat_completeness auto
termination
  by (relation "measure (\<lambda>(buf, j, d). nat \<bar>d\<bar>)") (auto simp: quo_def sgn_if split: if_splits)

definition allDigits :: "string \<Rightarrow> int \<Rightarrow> int \<Rightarrow> panic + (string \<times> int)" where
  "allDigits buf i d =
     bnd (allDigits_loop buf (int (length buf)) d) (\<lambda>(buf', j). copy_within buf' i j)"

text \<open>
  The minimal decimal representation in the words of the specification: no leading
  zero, and the single digit \<open>0\<close> for zero. It is the reference the encoders are
  compared with, not a translation of code.
\<close>

function decimal :: "int \<Rightarrow> string" where
  "decimal d = (if d < 10 then [byte (48 + d)] else decimal (d div 10) @ [byte (48 + d mod 10)])"
  by pat_completeness auto
termination
  by (relation "measure (\<lambda>d. nat d)") auto

text \<open>
  The digit phase of \<open>itoa\<close>: everything \<open>itoa\<close> does before its final \<open>copy\<close>,
  returning the buffer and the index of the first digit. It is \<open>itoa\<close> with the
  \<open>copy\<close> calls cut off, and is what is compared with the loop of \<open>allDigits\<close>.
\<close>

definition itoa_digits :: "string \<Rightarrow> int \<Rightarrow> int \<Rightarrow> panic + (string \<times> int)" where
  "itoa_digits buf j d =
     bnd (itoa_loop buf j d) (\<lambda>(buf1, j1, d1).
       if d1 < 10 then
         bnd (store buf1 (j1 - 1) (byte (48 + d1))) (\<lambda>buf2. Inr (buf2, j1 - 1))
       else
         bnd (index ddigits (d1 * 2 + 1)) (\<lambda>c1.
         bnd (store buf1 (j1 - 1) c1) (\<lambda>buf2.
         bnd (index ddigits (d1 * 2)) (\<lambda>c0.
         bnd (store buf2 (j1 - 2) c0) (\<lambda>buf3. Inr (buf3, j1 - 2))))))"

section \<open>Ranging over a string\<close>

text \<open>
  \<open>for _, c := range s\<close> does not yield bytes: it decodes UTF-8 and yields runes
  (code points). An invalid sequence yields \<open>0xFFFD\<close> and advances one byte. The
  decoder follows \<open>utf8.DecodeRuneInString\<close>: the lead byte selects the width and the
  range accepted for the second byte; a rune is returned with the number of bytes read.
\<close>

definition RuneError :: int where
  "RuneError = 65533"

definition rune :: "char \<Rightarrow> int" where
  "rune c = of_char c"

definition cont :: "char \<Rightarrow> bool" where
  "cont c \<longleftrightarrow> 128 \<le> rune c \<and> rune c \<le> 191"

fun DecodeRuneInString :: "string \<Rightarrow> int \<times> nat" where
  "DecodeRuneInString [] = (RuneError, 0)"
| "DecodeRuneInString (c # cs) =
    (let b0 = rune c in
     if b0 < 128 then (b0, 1)
     else if 194 \<le> b0 \<and> b0 \<le> 223 then
       (case cs of
          c1 # _ \<Rightarrow>
            if cont c1 then (b0 mod 32 * 64 + rune c1 mod 64, 2) else (RuneError, 1)
        | _ \<Rightarrow> (RuneError, 1))
     else if 224 \<le> b0 \<and> b0 \<le> 239 then
       (case cs of
          c1 # c2 # _ \<Rightarrow>
            if (if b0 = 224 then 160 else 128) \<le> rune c1 \<and>
               rune c1 \<le> (if b0 = 237 then 159 else 191) \<and> cont c2
            then ((b0 mod 16 * 64 + rune c1 mod 64) * 64 + rune c2 mod 64, 3)
            else (RuneError, 1)
        | _ \<Rightarrow> (RuneError, 1))
     else if 240 \<le> b0 \<and> b0 \<le> 244 then
       (case cs of
          c1 # c2 # c3 # _ \<Rightarrow>
            if (if b0 = 240 then 144 else 128) \<le> rune c1 \<and>
               rune c1 \<le> (if b0 = 244 then 143 else 191) \<and> cont c2 \<and> cont c3
            then (((b0 mod 8 * 64 + rune c1 mod 64) * 64 + rune c2 mod 64) * 64 + rune c3 mod 64, 4)
            else (RuneError, 1)
        | _ \<Rightarrow> (RuneError, 1))
     else (RuneError, 1))"

fun range_string :: "string \<Rightarrow> int list" where
  "range_string [] = []"
| "range_string (c # cs) =
    (case DecodeRuneInString (c # cs) of (r, n) \<Rightarrow> r # range_string (drop (n - 1) cs))"

section \<open>Records passed to the formatters\<close>

text \<open>
  \<open>time.Time\<close> belongs to the Go library. The renderers only read it through
  \<open>Date()\<close>, \<open>Clock()\<close>, \<open>Nanosecond()\<close>, \<open>Unix()\<close> and \<open>UnixNano()\<close>; the record holds
  what these accessors return.
\<close>

record time_Time =
  t_year :: int
  t_month :: int
  t_day :: int
  t_hour :: int
  t_min :: int
  t_sec :: int
  t_nanosecond :: int
  t_unix :: int
  t_unixnano :: int

text \<open>\<open>LogRecord\<close> of format.go.\<close>

record LogRecord =
  Time :: time_Time
  Severity :: Severity
  File :: string
  Line :: int
  Function :: string
  Package :: string
  Message :: string

text \<open>
  \<open>StdFormatter\<close>: the fields format.go declares. The type of the verbs is a
  parameter, since each of the two grammars declares its own \<open>fmtVerb\<close> constants.
\<close>

record 'v StdFormatter =
  frmt :: string
  strings :: "string list"
  parts :: "'v list"
  tmp :: string
  flags :: int

text \<open>\<open>filepath.Separator\<close> on a Unix build.\<close>

definition Separator :: char where
  "Separator = CHR ''/''"

text \<open>
  The loop \<open>for ; slash >= 0; slash-- { if file[slash] == filepath.Separator { break } }\<close>:
  the index of the last separator at or below \<open>slash\<close>, or \<open>-1\<close>.
\<close>

function last_separator :: "string \<Rightarrow> int \<Rightarrow> int" where
  "last_separator file slash =
     (if slash \<ge> 0 then
        (if file ! nat slash = Separator then slash else last_separator file (slash - 1))
      else slash)"
  by pat_completeness auto
termination
  by (relation "measure (\<lambda>(file, slash). nat (slash + 1))") auto

text \<open>The base name both grammars compute: \<open>file[slash+1:]\<close> when a separator was found.\<close>

definition base_name :: "string \<Rightarrow> string" where
  "base_name file =
     (let slash = last_separator file (int (length file) - 1)
      in if slash \<ge> 0 then drop (nat (slash + 1)) file else file)"

text \<open>A loop over a slice whose body may panic.\<close>

primrec foldM :: "('a \<Rightarrow> 's \<Rightarrow> panic + 's) \<Rightarrow> 'a list \<Rightarrow> 's \<Rightarrow> panic + 's" where
  "foldM step [] s = Inr s"
| "foldM step (x # xs) s = (case step x s of Inl e \<Rightarrow> Inl e | Inr s' \<Rightarrow> foldM step xs s')"

section \<open>Grammar A: single-character verbs (format.go)\<close>

datatype fmtVerb =
    vSTRING | vDATE_D | vDATE_d | vTIME_T | vTIME_t | vSEVERITY | vSHORT_SEVERITY
  | vFILE | vSHORT_FILE | vEXTRA_SHORT_FILE | vLINE | vMESSAGE | vPACKAGE_FUNCTION | vFUNCTION

text \<open>The constants are \<open>1 << iota\<close>.\<close>

fun fmtVerb_int :: "fmtVerb \<Rightarrow> int" where
  "fmtVerb_int vSTRING = 2 ^ 0"
| "fmtVerb_int vDATE_D = 2 ^ 1"
| "fmtVerb_int vDATE_d = 2 ^ 2"
| "fmtVerb_int vTIME_T = 2 ^ 3"
| "fmtVerb_int vTIME_t = 2 ^ 4"
| "fmtVerb_int vSEVERITY = 2 ^ 5"
| "fmtVerb_int vSHORT_SEVERITY = 2 ^ 6"
| "fmtVerb_int vFILE = 2 ^ 7"
| "fmtVerb_int vSHORT_FILE = 2 ^ 8"
| "fmtVerb_int vEXTRA_SHORT_FILE = 2 ^ 9"
| "fmtVerb_int vLINE = 2 ^ 10"
| "fmtVerb_int vMESSAGE = 2 ^ 11"
| "fmtVerb_int vPACKAGE_FUNCTION = 2 ^ 12"
| "fmtVerb_int vFUNCTION = 2 ^ 13"


text \<open>The verb cases of the \<open>switch c\<close> in \<open>NewStdFormatter\<close>, in the order of the source.\<close>

definition verb_of_rune :: "int \<Rightarrow> fmtVerb option" where
  "verb_of_rune c =
     (if c = rune CHR ''T'' then Some vTIME_T
      else if c = rune CHR ''t'' then Some vTIME_t
      else if c = rune CHR ''D'' then Some vDATE_D
      else if c = rune CHR ''d'' then Some vDATE_d
      else if c = rune CHR ''L'' then Some vSEVERITY
      else if c = rune CHR ''l'' then Some vSHORT_SEVERITY
      else if c = rune CHR ''F'' then Some vFILE
      else if c = rune CHR ''f'' then Some vSHORT_FILE
      else if c = rune CHR ''x'' then Some vEXTRA_SHORT_FILE
      else if c = rune CHR ''s'' then Some vLINE
      else if c = rune CHR ''M'' then Some vMESSAGE
      else if c = rune CHR ''P'' then Some vPACKAGE_FUNCTION
      else if c = rune CHR ''p'' then Some vFUNCTION
      else None)"

text \<open>
  One iteration of \<open>for _, c := range frmt\<close> in \<open>NewStdFormatter\<close>, on the loop state
  \<open>(isverb, raw, f)\<close>. A verb case sets its flag and appends the verb to \<open>parts\<close>; the
  case \<open>'%'\<close> and the default case append to \<open>raw\<close>, in the default case the byte
  \<open>byte(c)\<close> of the rune.
\<close>

definition NewStdFormatter_step ::
  "int \<Rightarrow> bool \<times> string \<times> fmtVerb StdFormatter \<Rightarrow> bool \<times> string \<times> fmtVerb StdFormatter" where
  "NewStdFormatter_step c st =
     (case st of (isverb, raw, f) \<Rightarrow>
        if \<not> isverb \<and> c = rune CHR ''%'' then
          (if length raw > 0
           then (True, [], f\<lparr>strings := strings f @ [raw], parts := parts f @ [vSTRING]\<rparr>)
           else (True, raw, f))
        else if isverb then
          (case verb_of_rune c of
             Some v \<Rightarrow> (False, raw, f\<lparr>flags := flags f OR fmtVerb_int v, parts := parts f @ [v]\<rparr>)
           | None \<Rightarrow>
               if c = rune CHR ''%'' then (False, raw @ [CHR ''%''], f)
               else (False, raw @ [CHR ''%'', byte c], f))
        else (False, raw @ [byte c], f))"

definition NewStdFormatter_A :: "string \<Rightarrow> fmtVerb StdFormatter" where
  "NewStdFormatter_A fr =
     (case fold NewStdFormatter_step (range_string fr)
             (False, [], \<lparr>frmt = fr, strings = [], parts = [], tmp = replicate 64 (CHR 0x00), flags = 0\<rparr>)
      of (isverb, raw, f) \<Rightarrow>
        if length raw > 0
        then f\<lparr>strings := strings f @ [raw], parts := parts f @ [vSTRING]\<rparr>
        else f)"


text \<open>
  The clock and the date as the time verbs write them into \<open>f.tmp\<close>: two digits, a
  separator, two digits, a separator, two digits.
\<close>

definition write_clock :: "string \<Rightarrow> time_Time \<Rightarrow> panic + string" where
  "write_clock t0 tm =
     bnd (twoDigits t0 0 (t_hour tm)) (\<lambda>t1.
     bnd (store t1 2 CHR '':'') (\<lambda>t2.
     bnd (twoDigits t2 3 (t_min tm)) (\<lambda>t3.
     bnd (store t3 5 CHR '':'') (\<lambda>t4.
     twoDigits t4 6 (t_sec tm)))))"

definition write_date :: "string \<Rightarrow> char \<Rightarrow> time_Time \<Rightarrow> panic + string" where
  "write_date t0 sep tm =
     bnd (nDigits t0 4 0 (t_year tm)) (\<lambda>t1.
     bnd (store t1 4 sep) (\<lambda>t2.
     bnd (twoDigits t2 5 (t_month tm)) (\<lambda>t3.
     bnd (store t3 7 sep) (\<lambda>t4.
     twoDigits t4 8 (t_day tm)))))"

text \<open>
  The body of \<open>for _, p := range f.parts\<close> in \<open>Format\<close>, on the state
  \<open>(buf, stringi, f.tmp)\<close>.
\<close>

fun Format_part_A ::
  "string list \<Rightarrow> LogRecord \<Rightarrow> fmtVerb \<Rightarrow> string \<times> int \<times> string \<Rightarrow> panic + (string \<times> int \<times> string)" where
  "Format_part_A strs data p (buf, stringi, t0) =
    (case p of
       vSTRING \<Rightarrow> bnd (index strs stringi) (\<lambda>s. Inr (buf @ s, stringi + 1, t0))
     | vTIME_T \<Rightarrow>
         bnd (write_clock t0 (Time data)) (\<lambda>t1.
         bnd (store t1 8 CHR ''.'') (\<lambda>t2.
         bnd (nDigits t2 6 9 (t_nanosecond (Time data))) (\<lambda>t3.
         bnd (slice_to t3 15) (\<lambda>s. Inr (buf @ s, stringi, t3)))))
     | vTIME_t \<Rightarrow>
         bnd (write_clock t0 (Time data)) (\<lambda>t1.
         bnd (slice_to t1 8) (\<lambda>s. Inr (buf @ s, stringi, t1)))
     | vDATE_D \<Rightarrow>
         bnd (write_date t0 CHR ''-'' (Time data)) (\<lambda>t1.
         bnd (slice_to t1 10) (\<lambda>s. Inr (buf @ s, stringi, t1)))
     | vDATE_d \<Rightarrow>
         bnd (write_date t0 CHR ''/'' (Time data)) (\<lambda>t1.
         bnd (slice_to t1 10) (\<lambda>s. Inr (buf @ s, stringi, t1)))
     | vSEVERITY \<Rightarrow>
         bnd (index LongSeverityStrings (Severity data)) (\<lambda>s. Inr (buf @ s, stringi, t0))
     | vSHORT_SEVERITY \<Rightarrow>
         bnd (index SeverityStrings (Severity data)) (\<lambda>s. Inr (buf @ s, stringi, t0))
     | vFILE \<Rightarrow> Inr (buf @ File data, stringi, t0)
     | vSHORT_FILE \<Rightarrow>
         (if length (File data) = 0 then Inr (buf @ ''???'', stringi, t0)
          else Inr (buf @ base_name (File data), stringi, t0))
     | vEXTRA_SHORT_FILE \<Rightarrow>
         (if length (File data) = 0 then Inr (buf @ ''???'', stringi, t0)
          else
            bnd (slice_to (base_name (File data)) (int (length (base_name (File data))) - 3)) (\<lambda>file.
            Inr (buf @ file, stringi, t0)))
     | vLINE \<Rightarrow>
         bnd (itoa t0 0 (Line data)) (\<lambda>(t1, n).
         bnd (slice_to t1 n) (\<lambda>s. Inr (buf @ s, stringi, t1)))
     | vMESSAGE \<Rightarrow> Inr (buf @ Message data, stringi, t0)
     | vPACKAGE_FUNCTION \<Rightarrow> Inr (buf @ Function data, stringi, t0)
     | vFUNCTION \<Rightarrow> Inr (buf @ Package data, stringi, t0))"

text \<open>
  \<open>Format\<close> with its effect on the formatter: the bytes returned and the formatter
  with its scratch buffer as the call leaves it.
\<close>

definition Format_state_A ::
  "fmtVerb StdFormatter \<Rightarrow> LogRecord \<Rightarrow> panic + (string \<times> fmtVerb StdFormatter)" where
  "Format_state_A f data =
     bnd (foldM (Format_part_A (strings f) data) (parts f) ([], 0, tmp f)) (\<lambda>(buf, stringi, t1).
       Inr (if length buf > 0 \<and> last buf \<noteq> CHR 0x0A then buf @ [CHR 0x0A] else buf,
            f\<lparr>tmp := t1\<rparr>))"

definition Format_A :: "fmtVerb StdFormatter \<Rightarrow> LogRecord \<Rightarrow> panic + string" where
  "Format_A f data = bnd (Format_state_A f data) (\<lambda>(b, f'). Inr b)"

text \<open>
  The output the loop of \<open>Format\<close> has accumulated when it ends, with the scratch
  buffer: \<open>Format\<close> before it appends the line terminator.
\<close>

definition accumulated_A :: "fmtVerb StdFormatter \<Rightarrow> LogRecord \<Rightarrow> panic + (string \<times> string)" where
  "accumulated_A f data =
     bnd (foldM (Format_part_A (strings f) data) (parts f) ([], 0, tmp f)) (\<lambda>(buf, stringi, t1).
       Inr (buf, t1))"

text \<open>
  What the template adds to the output, rune by rune. \<open>expand_step\<close> is the step of
  the compile loop of \<open>NewStdFormatter\<close> fused with the rendering of what that step
  compiles: its state is \<open>isverb\<close> and the output with the scratch buffer, or the panic.
  A verb applies its case of \<open>Format\<close> (\<open>verb_output\<close>), any other rune appends the
  bytes the compile loop appends to \<open>raw\<close> (\<open>emit\<close>). These three are not code of the
  repository: they state what a template renders, and the facts below prove that they
  agree with \<open>NewStdFormatter\<close> followed by \<open>Format\<close> on every template.
\<close>

definition verb_output :: "LogRecord \<Rightarrow> fmtVerb \<Rightarrow> string \<times> string \<Rightarrow> panic + (string \<times> string)" where
  "verb_output data v bt =
     (case bt of (buf, t0) \<Rightarrow>
        bnd (Format_part_A [] data v (buf, 0, t0)) (\<lambda>(buf', stringi, t1). Inr (buf', t1)))"

definition emit :: "string \<Rightarrow> string \<times> string \<Rightarrow> panic + (string \<times> string)" where
  "emit s bt = (case bt of (buf, t0) \<Rightarrow> Inr (buf @ s, t0))"

definition expand_step ::
  "LogRecord \<Rightarrow> int \<Rightarrow> bool \<times> (panic + (string \<times> string)) \<Rightarrow> bool \<times> (panic + (string \<times> string))" where
  "expand_step data c st =
     (case st of (isverb, r) \<Rightarrow>
        if \<not> isverb \<and> c = rune CHR ''%'' then (True, r)
        else if isverb then
          (case verb_of_rune c of
             Some v \<Rightarrow> (False, bnd r (verb_output data v))
           | None \<Rightarrow>
               if c = rune CHR ''%'' then (False, bnd r (emit [CHR ''%'']))
               else (False, bnd r (emit [CHR ''%'', byte c])))
        else (False, bnd r (emit [byte c])))"

section \<open>Grammar B: named verbs (the later format.go)\<close>

datatype fmtVerb_B =
    vSTRING_B | vSEVERITY_B | vSeverity | vseverity | vSEV | vSev | vsev | vS | vs
  | vDate | vTime | vUnix | vUnixNano | vFullFile | vFile | vShortFile | vLine
  | vFullFunction | vPkgFunction | vFunction | vColor | vMessage | vSafeMessage

text \<open>The constants are \<open>1 << iota\<close>.\<close>

fun fmtVerb_B_int :: "fmtVerb_B \<Rightarrow> int" where
  "fmtVerb_B_int vSTRING_B = 2 ^ 0"
| "fmtVerb_B_int vSEVERITY_B = 2 ^ 1"
| "fmtVerb_B_int vSeverity = 2 ^ 2"
| "fmtVerb_B_int vseverity = 2 ^ 3"
| "fmtVerb_B_int vSEV = 2 ^ 4"
| "fmtVerb_B_int vSev = 2 ^ 5"
| "fmtVerb_B_int vsev = 2 ^ 6"
| "fmtVerb_B_int vS = 2 ^ 7"
| "fmtVerb_B_int vs = 2 ^ 8"
| "fmtVerb_B_int vDate = 2 ^ 9"
| "fmtVerb_B_int vTime = 2 ^ 10"
| "fmtVerb_B_int vUnix = 2 ^ 11"
| "fmtVerb_B_int vUnixNano = 2 ^ 12"
| "fmtVerb_B_int vFullFile = 2 ^ 13"
| "fmtVerb_B_int vFile = 2 ^ 14"
| "fmtVerb_B_int vShortFile = 2 ^ 15"
| "fmtVerb_B_int vLine = 2 ^ 16"
| "fmtVerb_B_int vFullFunction = 2 ^ 17"
| "fmtVerb_B_int vPkgFunction = 2 ^ 18"
| "fmtVerb_B_int vFunction = 2 ^ 19"
| "fmtVerb_B_int vColor = 2 ^ 20"
| "fmtVerb_B_int vMessage = 2 ^ 21"
| "fmtVerb_B_int vSafeMessage = 2 ^ 22"


definition verbMap :: "string \<rightharpoonup> fmtVerb_B" where
  "verbMap = map_of
     [(''SEVERITY'', vSEVERITY_B), (''Severity'', vSeverity), (''severity'', vseverity),
      (''SEV'', vSEV), (''Sev'', vSev), (''sev'', vsev), (''S'', vS), (''s'', vs),
      (''Date'', vDate), (''Time'', vTime), (''Unix'', vUnix), (''UnixNano'', vUnixNano),
      (''FullFile'', vFullFile), (''File'', vFile), (''ShortFile'', vShortFile),
      (''Line'', vLine), (''FullFunction'', vFullFunction), (''PkgFunction'', vPkgFunction),
      (''Function'', vFunction), (''Color'', vColor), (''Message'', vMessage),
      (''SafeMessage'', vSafeMessage)]"

subsection \<open>The regular expression \<open>formatRe\<close>\<close>

text \<open>
  \<open>formatRe\<close> is \<^verbatim>\<open>%{([A-Za-z]+)(?:\s(.*?[^\\]))?}\<close>, matched by Go's \<open>regexp\<close>
  package: the leftmost match, and at one starting point the match a backtracking
  matcher finds first. Every byte the expression names is ASCII and ASCII bytes occur
  in UTF-8 only as themselves, so the match is the same on bytes as on runes.
  \<^item> \<open>[A-Za-z]+\<close> is followed by \<open>\s\<close> or by \<open>}\<close>, neither a letter: the name is the
    whole run of letters.
  \<^item> \<open>\s\<close> is one of tab, newline, form feed, carriage return, space.
  \<^item> \<open>.*?[^\\]\<close> before \<open>}\<close> is lazy: the shortest run of bytes other than newline
    that is followed by a byte other than backslash and then by \<open>}\<close>.
\<close>

definition isLetter :: "char \<Rightarrow> bool" where
  "isLetter c \<longleftrightarrow> (65 \<le> rune c \<and> rune c \<le> 90) \<or> (97 \<le> rune c \<and> rune c \<le> 122)"

definition isSpace :: "char \<Rightarrow> bool" where
  "isSpace c \<longleftrightarrow> c = CHR 0x09 \<or> c = CHR 0x0A \<or> c = CHR 0x0C \<or> c = CHR 0x0D \<or> c = CHR '' ''"

text \<open>The length of the submatch \<open>(.*?[^\\])\<close> at the head of a string, when \<open>}\<close> follows it.\<close>

fun match_layout :: "string \<Rightarrow> nat option" where
  "match_layout (c # d # cs) =
     (if c \<noteq> CHR 0x5C \<and> d = CHR ''}'' then Some 1
      else if c = CHR 0x0A then None
      else map_option Suc (match_layout (d # cs)))"
| "match_layout _ = None"

text \<open>
  A match of \<open>formatRe\<close> that starts at the head of a string: the length of the name
  and, when the optional group took part, the length of the layout.
\<close>

definition match_here :: "string \<Rightarrow> (nat \<times> nat option) option" where
  "match_here s =
     (case s of
        p # b # rest \<Rightarrow>
          if p = CHR ''%'' \<and> b = CHR ''{'' then
            (let name = takeWhile isLetter rest; after = dropWhile isLetter rest
             in if name = [] then None
                else (case after of
                        [] \<Rightarrow> None
                      | a # tail \<Rightarrow>
                          if isSpace a then
                            (case match_layout tail of
                               Some k \<Rightarrow> Some (length name, Some k)
                             | None \<Rightarrow> None)
                          else if a = CHR ''}'' then Some (length name, None)
                          else None))
          else None
      | _ \<Rightarrow> None)"

text \<open>
  \<open>formatRe.FindAllStringSubmatchIndex(frmt, -1)\<close>, searching from byte \<open>pos\<close>: for each
  match the indices \<open>m[0..5]\<close>, with \<open>m[4] = m[5] = -1\<close> when the optional group did not
  take part. The search resumes where the last match ended.
\<close>

function FindAllStringSubmatchIndex :: "string \<Rightarrow> nat \<Rightarrow> (int list) list" where
  "FindAllStringSubmatchIndex fr pos =
     (if pos \<ge> length fr then []
      else
        (case match_here (drop pos fr) of
           None \<Rightarrow> FindAllStringSubmatchIndex fr (pos + 1)
         | Some (n, None) \<Rightarrow>
             [int pos, int (pos + 2 + n + 1), int (pos + 2), int (pos + 2 + n), - 1, - 1]
               # FindAllStringSubmatchIndex fr (pos + 2 + n + 1)
         | Some (n, Some k) \<Rightarrow>
             [int pos, int (pos + 2 + n + 1 + k + 1), int (pos + 2), int (pos + 2 + n),
              int (pos + 2 + n + 1), int (pos + 2 + n + 1 + k)]
               # FindAllStringSubmatchIndex fr (pos + 2 + n + 1 + k + 1)))"
  by pat_completeness auto
termination
  by (relation "measure (\<lambda>(fr, pos). length fr - pos)") auto

subsection \<open>The compiler\<close>

text \<open>
  \<open>StdFormatter\<close> of the later format.go adds two fields. \<open>layouts\<close> is declared and
  never written. \<open>stmp\<close> is the buffer of the safe-message verb; its capacity is not
  modelled, only its contents.
\<close>

record 'v StdFormatter_B = "'v StdFormatter" +
  layouts :: "string list"
  stmp :: string

text \<open>
  Package \<open>github.com/mgutz/ansi\<close> is not part of the repository: \<open>ansi.Reset\<close> and
  \<open>ansi.ColorCode\<close> are parameters of the compiler.
\<close>

record ansi =
  Reset :: string
  ColorCode :: "string \<Rightarrow> string"

definition appendString :: "string \<Rightarrow> fmtVerb_B StdFormatter_B \<Rightarrow> fmtVerb_B StdFormatter_B" where
  "appendString s f =
     (if length s > 0 then f\<lparr>strings := strings f @ [s], parts := parts f @ [vSTRING_B]\<rparr> else f)"

text \<open>\<open>s[a:b]\<close> for indices the matcher returned, which lie inside the string.\<close>

definition substr :: "string \<Rightarrow> int \<Rightarrow> int \<Rightarrow> string" where
  "substr s a b = take (nat b - nat a) (drop (nat a) s)"

text \<open>One iteration of \<open>for _, m := range matches\<close>, on the state \<open>(prev, f)\<close>.\<close>

definition NewStdFormatter_match ::
  "ansi \<Rightarrow> string \<Rightarrow> int list \<Rightarrow> int \<times> fmtVerb_B StdFormatter_B \<Rightarrow> int \<times> fmtVerb_B StdFormatter_B" where
  "NewStdFormatter_match an fr m st =
     (case st of (prev, f) \<Rightarrow>
        let start = m ! 0; end = m ! 1;
            verb = substr fr (m ! 2) (m ! 3);
            layout = (if m ! 4 \<noteq> - 1 then substr fr (m ! 4) (m ! 5) else []);
            f1 = (if start > prev then appendString (substr fr prev start) f else f);
            f2 = (case verbMap verb of
                    Some v \<Rightarrow>
                      if v = vColor then
                        (if layout = ''reset'' then appendString (Reset an) f1
                         else appendString (ColorCode an layout) f1)
                      else f1\<lparr>flags := flags f1 OR fmtVerb_B_int v, parts := parts f1 @ [v]\<rparr>
                  | None \<Rightarrow> f1)
        in (end, f2))"

definition NewStdFormatter_B :: "ansi \<Rightarrow> string \<Rightarrow> fmtVerb_B StdFormatter_B" where
  "NewStdFormatter_B an fr =
     (case fold (NewStdFormatter_match an fr) (FindAllStringSubmatchIndex fr 0)
             (0, \<lparr>frmt = fr, strings = [], parts = [], tmp = replicate 64 (CHR 0x00), flags = 0,
                  layouts = [], stmp = []\<rparr>)
      of (prev, f) \<Rightarrow>
        if drop (nat prev) fr \<noteq> [] then appendString (drop (nat prev) fr) f else f)"


subsection \<open>The renderer\<close>

text \<open>
  \<open>LogContext\<close> is declared outside the files at hand; these are the fields that
  \<open>Output\<close> of factorlog.go sets and that \<open>Format\<close> reads.
\<close>

record LogContext =
  ctx_Time :: time_Time
  ctx_Severity :: Severity
  ctx_File :: string
  ctx_Line :: int
  ctx_Function :: string
  ctx_Message :: string
  ctx_Pid :: int

text \<open>
  The eight severity tables and \<open>i64toa\<close> are used by \<open>Format\<close> and declared outside
  the files at hand. They are parameters of the renderer: the tables as arrays indexed
  by the severity, like \<open>SeverityStrings\<close> of factorlog.go, and \<open>i64toa\<close> with the
  interface of \<open>itoa\<close>.
\<close>

record tables =
  UcSeverityStrings :: "string list"
  CapSeverityStrings :: "string list"
  LcSeverityStrings :: "string list"
  UcShortSeverityStrings :: "string list"
  CapShortSeverityStrings :: "string list"
  LcShortSeverityStrings :: "string list"
  UcShortestSeverityStrings :: "string list"
  LcShortestSeverityStrings :: "string list"
  i64toa :: "string \<Rightarrow> int \<Rightarrow> int \<Rightarrow> panic + (string \<times> int)"

text \<open>
  The loop of the \<open>vFunction\<close> case: it walks down from the end to the last separator
  and leaves in \<open>lastDot\<close> the lowest index of a dot it met, or \<open>-1\<close>.
\<close>

function last_dot :: "string \<Rightarrow> int \<Rightarrow> int \<Rightarrow> int" where
  "last_dot fn slash lastDot =
     (if slash \<ge> 0 then
        (if fn ! nat slash = Separator then lastDot
         else if fn ! nat slash = CHR ''.'' then last_dot fn (slash - 1) slash
         else last_dot fn (slash - 1) lastDot)
      else lastDot)"
  by pat_completeness auto
termination
  by (relation "measure (\<lambda>(fn, slash, lastDot). nat (slash + 1))") auto

text \<open>
  One iteration of \<open>for _, c := range context.Message\<close> in the \<open>vSafeMessage\<close> case, on
  the state \<open>(f.tmp, f.stmp)\<close>: a rune below 32 becomes a backslash, an \<open>x\<close> and the
  output of \<open>twoDigits\<close>; any other rune becomes the byte \<open>byte(c)\<close>.
\<close>

definition safe_step :: "int \<Rightarrow> string \<times> string \<Rightarrow> panic + (string \<times> string)" where
  "safe_step c st =
     (case st of (t0, st0) \<Rightarrow>
        if c < 32 then
          bnd (store t0 0 (CHR 0x5C)) (\<lambda>t1.
          bnd (store t1 1 CHR ''x'') (\<lambda>t2.
          bnd (twoDigits t2 2 c) (\<lambda>t3.
          bnd (slice_to t3 4) (\<lambda>s. Inr (t3, st0 @ s)))))
        else Inr (t0, st0 @ [byte c]))"

text \<open>
  The body of \<open>for _, p := range f.parts\<close> in \<open>Format\<close>, on the state
  \<open>(buf, stringi, f.tmp, f.stmp)\<close>.
\<close>

fun Format_part_B ::
  "tables \<Rightarrow> string list \<Rightarrow> LogContext \<Rightarrow> fmtVerb_B \<Rightarrow> string \<times> int \<times> string \<times> string
     \<Rightarrow> panic + (string \<times> int \<times> string \<times> string)" where
  "Format_part_B tb strs context p (buf, stringi, t0, st0) =
    (case p of
       vSTRING_B \<Rightarrow> bnd (index strs stringi) (\<lambda>s. Inr (buf @ s, stringi + 1, t0, st0))
     | vSEVERITY_B \<Rightarrow>
         bnd (index (UcSeverityStrings tb) (ctx_Severity context)) (\<lambda>s. Inr (buf @ s, stringi, t0, st0))
     | vSeverity \<Rightarrow>
         bnd (index (CapSeverityStrings tb) (ctx_Severity context)) (\<lambda>s. Inr (buf @ s, stringi, t0, st0))
     | vseverity \<Rightarrow>
         bnd (index (LcSeverityStrings tb) (ctx_Severity context)) (\<lambda>s. Inr (buf @ s, stringi, t0, st0))
     | vSEV \<Rightarrow>
         bnd (index (UcShortSeverityStrings tb) (ctx_Severity context)) (\<lambda>s. Inr (buf @ s, stringi, t0, st0))
     | vSev \<Rightarrow>
         bnd (index (CapShortSeverityStrings tb) (ctx_Severity context)) (\<lambda>s. Inr (buf @ s, stringi, t0, st0))
     | vsev \<Rightarrow>
         bnd (index (LcShortSeverityStrings tb) (ctx_Severity context)) (\<lambda>s. Inr (buf @ s, stringi, t0, st0))
     | vS \<Rightarrow>
         bnd (index (UcShortestSeverityStrings tb) (ctx_Severity context)) (\<lambda>s. Inr (buf @ s, stringi, t0, st0))
     | vs \<Rightarrow>
         bnd (index (LcShortestSeverityStrings tb) (ctx_Severity context)) (\<lambda>s. Inr (buf @ s, stringi, t0, st0))
     | vDate \<Rightarrow>
         bnd (write_date t0 CHR ''-'' (ctx_Time context)) (\<lambda>t1.
         bnd (slice_to t1 10) (\<lambda>s. Inr (buf @ s, stringi, t1, st0)))
     | vTime \<Rightarrow>
         bnd (write_clock t0 (ctx_Time context)) (\<lambda>t1.
         bnd (slice_to t1 8) (\<lambda>s. Inr (buf @ s, stringi, t1, st0)))
     | vUnix \<Rightarrow>
         bnd (i64toa tb t0 0 (t_unix (ctx_Time context))) (\<lambda>(t1, n).
         bnd (slice_to t1 n) (\<lambda>s. Inr (buf @ s, stringi, t1, st0)))
     | vUnixNano \<Rightarrow>
         bnd (i64toa tb t0 0 (t_unixnano (ctx_Time context))) (\<lambda>(t1, n).
         bnd (slice_to t1 n) (\<lambda>s. Inr (buf @ s, stringi, t1, st0)))
     | vFullFile \<Rightarrow> Inr (buf @ ctx_File context, stringi, t0, st0)
     | vFile \<Rightarrow>
         Inr (buf @ (if length (ctx_File context) = 0 then ''???'' else base_name (ctx_File context)),
              stringi, t0, st0)
     | vShortFile \<Rightarrow>
         (let file = (if length (ctx_File context) = 0 then ''???'' else base_name (ctx_File context))
          in bnd (slice_to file (int (length file) - 3)) (\<lambda>file'. Inr (buf @ file', stringi, t0, st0)))
     | vLine \<Rightarrow>
         bnd (itoa t0 0 (ctx_Line context)) (\<lambda>(t1, n).
         bnd (slice_to t1 n) (\<lambda>s. Inr (buf @ s, stringi, t1, st0)))
     | vFullFunction \<Rightarrow> Inr (buf @ ctx_Function context, stringi, t0, st0)
     | vPkgFunction \<Rightarrow> Inr (buf @ base_name (ctx_Function context), stringi, t0, st0)
     | vFunction \<Rightarrow>
         bnd (slice_from (ctx_Function context)
                (last_dot (ctx_Function context) (int (length (ctx_Function context)) - 1) (- 1) + 1))
           (\<lambda>fn. Inr (buf @ fn, stringi, t0, st0))
     | vColor \<Rightarrow> Inr (buf, stringi, t0, st0)
     | vMessage \<Rightarrow> Inr (buf @ ctx_Message context, stringi, t0, st0)
     | vSafeMessage \<Rightarrow>
         bnd (foldM safe_step (range_string (ctx_Message context)) (t0, [])) (\<lambda>(t1, st1).
         Inr (buf @ st1, stringi, t1, st1)))"

definition Format_state_B ::
  "tables \<Rightarrow> fmtVerb_B StdFormatter_B \<Rightarrow> LogContext \<Rightarrow> panic + (string \<times> fmtVerb_B StdFormatter_B)" where
  "Format_state_B tb f context =
     bnd (foldM (Format_part_B tb (strings f) context) (parts f) ([], 0, tmp f, stmp f))
       (\<lambda>(buf, stringi, t1, st1).
          Inr (if length buf > 0 \<and> last buf \<noteq> CHR 0x0A then buf @ [CHR 0x0A] else buf,
               f\<lparr>tmp := t1, stmp := st1\<rparr>))"

definition Format_B :: "tables \<Rightarrow> fmtVerb_B StdFormatter_B \<Rightarrow> LogContext \<Rightarrow> panic + string" where
  "Format_B tb f context = bnd (Format_state_B tb f context) (\<lambda>(b, f'). Inr b)"

text \<open>The table each severity verb of \<open>Format\<close> indexes; \<open>None\<close> for the other verbs.\<close>

fun severity_table :: "tables \<Rightarrow> fmtVerb_B \<Rightarrow> string list option" where
  "severity_table tb vSEVERITY_B = Some (UcSeverityStrings tb)"
| "severity_table tb vSeverity = Some (CapSeverityStrings tb)"
| "severity_table tb vseverity = Some (LcSeverityStrings tb)"
| "severity_table tb vSEV = Some (UcShortSeverityStrings tb)"
| "severity_table tb vSev = Some (CapShortSeverityStrings tb)"
| "severity_table tb vsev = Some (LcShortSeverityStrings tb)"
| "severity_table tb vS = Some (UcShortestSeverityStrings tb)"
| "severity_table tb vs = Some (LcShortestSeverityStrings tb)"
| "severity_table tb _ = None"

section \<open>Test data\<close>

text \<open>\<open>fmtTestsData\<close> of format_test.go: the time is \<open>time.Unix(0, 1389223634000123456)\<close>.\<close>

definition fmtTestsTime :: time_Time where
  "fmtTestsTime =
     \<lparr>t_year = 2014, t_month = 1, t_day = 8, t_hour = 18, t_min = 27, t_sec = 14,
      t_nanosecond = 123456, t_unix = 1389223634, t_unixnano = 1389223634000123456\<rparr>"

definition fmtTestsData :: LogRecord where
  "fmtTestsData =
     \<lparr>Time = fmtTestsTime, Severity = PANIC, File = ''/path/to/testing.go'', Line = 391,
      Function = ''pkg.func'', Package = ''pkg'', Message = ''hello there!''\<rparr>"

text \<open>
  The same record as a \<open>LogContext\<close>, with tables and an \<open>ansi\<close> package to run the
  later renderer on: the upper-case names of factorlog.go in every table, \<open>itoa\<close> for
  \<open>i64toa\<close>, and a colour function that knows one colour. They serve as concrete
  inputs only; no general statement depends on them.
\<close>

definition fmtTestsContext :: LogContext where
  "fmtTestsContext =
     \<lparr>ctx_Time = fmtTestsTime, ctx_Severity = PANIC, ctx_File = ''/path/to/testing.go'',
      ctx_Line = 391, ctx_Function = ''pkg.func'', ctx_Message = ''hello there!'',
      ctx_Pid = 1234\<rparr>"

definition test_tables :: tables where
  "test_tables =
     \<lparr>UcSeverityStrings = LongSeverityStrings, CapSeverityStrings = LongSeverityStrings,
      LcSeverityStrings = LongSeverityStrings, UcShortSeverityStrings = SeverityStrings,
      CapShortSeverityStrings = SeverityStrings, LcShortSeverityStrings = SeverityStrings,
      UcShortestSeverityStrings = SeverityStrings, LcShortestSeverityStrings = SeverityStrings,
      i64toa = itoa\<rparr>"

definition test_ansi :: ansi where
  "test_ansi =
     \<lparr>Reset = [CHR 0x1B, CHR ''['', CHR ''0'', CHR ''m''],
      ColorCode = (\<lambda>s. if s = ''red'' then [CHR 0x1B, CHR ''['', CHR ''3'', CHR ''1'', CHR ''m''] else [])\<rparr>"

section \<open>Facts about the model\<close>

declare itoa_loop.simps [simp del] allDigits_loop.simps [simp del] nDigits_loop.simps [simp del]
  decimal.simps [simp del] last_separator.simps [simp del] last_dot.simps [simp del]
  FindAllStringSubmatchIndex.simps [simp del]

lemmas severity_defs =
  NONE_def TRACE_def DEBUG_def INFO_def WARN_def ERROR_def CRITICAL_def STACK_def FATAL_def PANIC_def

subsection \<open>Severity names\<close>

lemma LongSeverityStrings_length: "length LongSeverityStrings = 10"
  by (simp add: LongSeverityStrings_def)

lemma severity_range_cases:
  fixes s :: int
  assumes "1 \<le> s" "s \<le> 9"
  shows "s = 1 \<or> s = 2 \<or> s = 3 \<or> s = 4 \<or> s = 5 \<or> s = 6 \<or> s = 7 \<or> s = 8 \<or> s = 9"
  using assms by arith

text \<open>
  C10. \<open>SeverityFromString\<close> is a left inverse of the upper-case table on
  \<open>TRACE..PANIC\<close>: looking the name of such a severity up gives the severity back.
  Every string that is not one of the nine upper-case names, the empty string and
  lower-case or mixed-case spellings included, is mapped to \<open>NONE\<close>.
\<close>

theorem SeverityFromString_left_inverse:
  "(TRACE \<le> s \<and> s \<le> PANIC \<longrightarrow>
      index LongSeverityStrings s = Inr (LongSeverityStrings ! nat s) \<and>
      SeverityFromString (LongSeverityStrings ! nat s) = s) \<and>
   (l \<notin> {''TRACE'', ''DEBUG'', ''INFO'', ''WARN'', ''ERROR'', ''CRITICAL'', ''STACK'', ''FATAL'', ''PANIC''}
      \<longrightarrow> SeverityFromString l = NONE) \<and>
   SeverityFromString '''' = NONE \<and> SeverityFromString ''trace'' = NONE \<and>
   SeverityFromString ''Trace'' = NONE \<and> SeverityFromString ''NONE'' = NONE"
proof (intro conjI impI)
  assume r: "TRACE \<le> s \<and> s \<le> PANIC"
  then have c: "s = 1 \<or> s = 2 \<or> s = 3 \<or> s = 4 \<or> s = 5 \<or> s = 6 \<or> s = 7 \<or> s = 8 \<or> s = 9"
    using severity_range_cases [of s] by (simp add: TRACE_def PANIC_def)
  from r show "index LongSeverityStrings s = Inr (LongSeverityStrings ! nat s)"
    by (simp add: index_def LongSeverityStrings_length TRACE_def PANIC_def)
  from c show "SeverityFromString (LongSeverityStrings ! nat s) = s"
    by (elim disjE) (simp_all add: SeverityFromString_def LongSeverityStrings_def severity_defs)
next
  assume "l \<notin> {''TRACE'', ''DEBUG'', ''INFO'', ''WARN'', ''ERROR'', ''CRITICAL'', ''STACK'', ''FATAL'', ''PANIC''}"
  then show "SeverityFromString l = NONE"
    by (simp add: SeverityFromString_def)
qed (simp_all add: SeverityFromString_def severity_defs)

theorem SeverityFromString_left_inverse_witness:
  "SeverityFromString (LongSeverityStrings ! nat CRITICAL) = CRITICAL \<and>
   SeverityFromString ''critical'' = NONE"
  using SeverityFromString_left_inverse [of CRITICAL "''critical''"]
  by (simp add: severity_defs)

subsection \<open>The numeric encoder\<close>

lemma quo_nonneg: "0 \<le> a \<Longrightarrow> 0 < b \<Longrightarrow> quo a b = a div b"
  by (cases "a = 0") (simp_all add: quo_def sgn_if)

lemma rem_nonneg: "0 \<le> a \<Longrightarrow> 0 < b \<Longrightarrow> rem a b = a mod b"
  by (cases "a = 0") (simp_all add: rem_def sgn_if)

lemma ddigits_concat:
  "ddigits = concat (map (\<lambda>k. [digits ! (k div 10), digits ! (k mod 10)]) [0..<100])"
  by (simp add: ddigits_def digits_def upt_rec)

lemma nth_concat_pairs:
  "k < n \<Longrightarrow> concat (map (\<lambda>k. [f k, g k]) [0..<n]) ! (2 * k) = f k \<and>
     concat (map (\<lambda>k. [f k, g k]) [0..<n]) ! (2 * k + 1) = g k"
proof (induction n)
  case 0 then show ?case by simp
next
  case (Suc n)
  have len: "length (concat (map (\<lambda>k. [f k, g k]) [0..<n])) = 2 * n"
    by (induction n) simp_all
  show ?case
  proof (cases "k < n")
    case True
    with Suc.IH len show ?thesis by (simp add: nth_append)
  next
    case False
    with Suc.prems have "k = n" by simp
    with len show ?thesis by (simp add: nth_append)
  qed
qed

lemma ddigits_nth:
  assumes "k < 100"
  shows "ddigits ! (2 * k) = digits ! (k div 10)" "ddigits ! (2 * k + 1) = digits ! (k mod 10)"
  using nth_concat_pairs [OF assms, of "\<lambda>k. digits ! (k div 10)" "\<lambda>k. digits ! (k mod 10)"]
  by (simp_all add: ddigits_concat)

lemma ddigits_length: "length ddigits = 200"
  by (simp add: ddigits_def)

lemma digits_length: "length digits = 10"
  by (simp add: digits_def)

lemma index_digits: "0 \<le> k \<Longrightarrow> k < 10 \<Longrightarrow> index digits k = Inr (digits ! nat k)"
  by (simp add: index_def digits_length)

lemma index_ddigits_lo:
  assumes "0 \<le> k" "k < 100"
  shows "index ddigits (k * 2) = Inr (digits ! nat (k div 10))"
proof -
  have "nat (k * 2) = 2 * nat k" using assms by simp
  moreover have "nat k < 100" using assms by simp
  moreover have "nat k div 10 = nat (k div 10)" using assms by (simp add: nat_div_distrib)
  ultimately show ?thesis using assms ddigits_nth(1) [of "nat k"]
    by (simp add: index_def ddigits_length)
qed

lemma index_ddigits_hi:
  assumes "0 \<le> k" "k < 100"
  shows "index ddigits (k * 2 + 1) = Inr (digits ! nat (k mod 10))"
proof -
  have "nat (k * 2 + 1) = 2 * nat k + 1" using assms by simp
  moreover have "nat k < 100" using assms by simp
  moreover have "nat k mod 10 = nat (k mod 10)" using assms by (simp add: nat_mod_distrib)
  ultimately show ?thesis using assms ddigits_nth(2) [of "nat k"]
    by (simp add: index_def ddigits_length)
qed

lemma byte_digit: "0 \<le> k \<Longrightarrow> k < 10 \<Longrightarrow> byte (48 + k) = digits ! nat k"
proof -
  assume "0 \<le> k" "k < 10"
  then have "k = 0 \<or> k = 1 \<or> k = 2 \<or> k = 3 \<or> k = 4 \<or> k = 5 \<or> k = 6 \<or> k = 7 \<or> k = 8 \<or> k = 9"
    by arith
  then show ?thesis
    by (elim disjE) (simp_all add: byte_def digits_def char_of_def)
qed

lemma itoa_loop_done: "d < 100 \<Longrightarrow> itoa_loop buf j d = Inr (buf, j, d)"
  by (subst itoa_loop.simps) simp

lemma bnd_simps [simp]: "bnd (Inl e) k = Inl e" "bnd (Inr x) k = k x"
  by (simp_all add: bnd_def)

lemma bnd_assoc: "bnd (bnd m f) g = bnd m (\<lambda>x. bnd (f x) g)"
  by (cases m) simp_all

lemma itoa_via_digits:
  "itoa buf i d = bnd (itoa_digits buf (int (length buf)) d) (\<lambda>(b, j). copy_within b i j)"
  unfolding itoa_def itoa_digits_def bnd_assoc
  by (rule arg_cong [where f = "bnd _"]) (auto simp: fun_eq_iff bnd_assoc)

lemma itoa_digits_small:
  assumes "0 \<le> d" "d < 100"
  shows "itoa_digits buf j d = allDigits_loop buf j d"
proof (cases "d < 10")
  case True
  with assms have "itoa_loop buf j d = Inr (buf, j, d)" by (simp add: itoa_loop_done)
  moreover from True assms have "quo d 10 = 0" "rem d 10 = d"
    by (simp_all add: quo_nonneg rem_nonneg)
  ultimately show ?thesis using True assms
    by (subst allDigits_loop.simps)
       (simp add: itoa_digits_def index_digits byte_digit bnd_def split: sum.splits)
next
  case False
  with assms have l: "itoa_loop buf j d = Inr (buf, j, d)" by (simp add: itoa_loop_done)
  from False assms have q: "quo d 10 = d div 10" "rem d 10 = d mod 10" "d div 10 \<noteq> 0"
    "0 \<le> d div 10" "d div 10 < 10"
    by (simp_all add: quo_nonneg rem_nonneg)
  then have q2: "quo (d div 10) 10 = 0" "rem (d div 10) 10 = d div 10"
    by (simp_all add: quo_nonneg rem_nonneg)
  have m: "0 \<le> d mod 10" "d mod 10 < 10" by simp_all
  show ?thesis using False assms l q q2
    apply (subst allDigits_loop.simps)
    apply (subst allDigits_loop.simps)
    apply (simp add: itoa_digits_def index_ddigits_lo index_ddigits_hi index_digits m bnd_def
        split: sum.splits)
    done
qed

lemma div10_div10: "(d::int) div 10 div 10 = d div 100"
proof -
  have "d div (10 * 10) = d div 10 div 10" by (rule zdiv_zmult2_eq) simp
  then show ?thesis by simp
qed

lemma mod100_mod10: "(d::int) mod 100 mod 10 = d mod 10"
  by (simp add: mod_mod_cancel)

lemma mod100_div10: "(d::int) mod 100 div 10 = d div 10 mod 10"
proof -
  have "d mod (10 * 10) = 10 * (d div 10 mod 10) + d mod 10" by (rule zmod_zmult2_eq) simp
  then have "d mod 100 div 10 = (10 * (d div 10 mod 10) + d mod 10) div 10" by simp
  also have "\<dots> = d div 10 mod 10" by simp
  finally show ?thesis .
qed

lemma ge100_div:
  assumes "(100::int) \<le> d"
  shows "d div 100 \<noteq> 0" "d div 10 \<noteq> 0" "0 \<le> d div 100" "0 \<le> d div 10"
  using assms by (simp_all add: pos_imp_zdiv_pos_iff div_eq_0_iff zdiv_eq_0_iff pos_imp_zdiv_nonneg_iff)

lemma itoa_digits_step:
  assumes "100 \<le> d"
  shows "itoa_digits buf j d =
        (case store buf (j - 1) (digits ! nat (d mod 10)) of Inl e \<Rightarrow> Inl e | Inr buf1 \<Rightarrow>
         (case store buf1 (j - 2) (digits ! nat (d div 10 mod 10)) of Inl e \<Rightarrow> Inl e | Inr buf2 \<Rightarrow>
           itoa_digits buf2 (j - 2) (d div 100)))"
proof -
  let ?k = "d mod 100"
  have k: "0 \<le> ?k" "?k < 100" by simp_all
  from assms have r: "rem d 100 = ?k" "quo d 100 = d div 100"
    by (simp_all add: quo_nonneg rem_nonneg)
  have c1: "index ddigits (rem d 100 * 2 + 1) = Inr (digits ! nat (d mod 10))"
    using index_ddigits_hi [OF k] r by (simp add: mod100_mod10)
  have c0: "index ddigits (rem d 100 * 2) = Inr (digits ! nat (d div 10 mod 10))"
    using index_ddigits_lo [OF k] r by (simp add: mod100_div10)
  have "itoa_loop buf j d =
        (case store buf (j - 1) (digits ! nat (d mod 10)) of Inl e \<Rightarrow> Inl e | Inr buf1 \<Rightarrow>
         (case store buf1 (j - 2) (digits ! nat (d div 10 mod 10)) of Inl e \<Rightarrow> Inl e | Inr buf2 \<Rightarrow>
           itoa_loop buf2 (j - 2) (d div 100)))"
    by (subst itoa_loop.simps) (simp add: assms c1 c0 r(2) cong: sum.case_cong)
  then show ?thesis
    unfolding itoa_digits_def by (simp split: sum.splits)
qed

lemma allDigits_loop_step:
  assumes "100 \<le> d"
  shows "allDigits_loop buf j d =
        (case store buf (j - 1) (digits ! nat (d mod 10)) of Inl e \<Rightarrow> Inl e | Inr buf1 \<Rightarrow>
         (case store buf1 (j - 2) (digits ! nat (d div 10 mod 10)) of Inl e \<Rightarrow> Inl e | Inr buf2 \<Rightarrow>
           allDigits_loop buf2 (j - 2) (d div 100)))"
proof -
  from assms have a: "quo d 10 = d div 10" "rem d 10 = d mod 10"
    by (simp_all add: quo_nonneg rem_nonneg)
  from assms ge100_div [OF assms] have b: "quo (d div 10) 10 = d div 100" "rem (d div 10) 10 = d div 10 mod 10"
    by (simp_all add: quo_nonneg rem_nonneg div10_div10)
  have m: "0 \<le> d mod 10" "d mod 10 < 10" "0 \<le> d div 10 mod 10" "d div 10 mod 10 < 10" by simp_all
  have one: "\<And>buf1. allDigits_loop buf1 (j - 1) (d div 10) =
       (case store buf1 (j - 2) (digits ! nat (d div 10 mod 10)) of Inl e \<Rightarrow> Inl e | Inr buf2 \<Rightarrow>
           allDigits_loop buf2 (j - 2) (d div 100))"
    by (subst allDigits_loop.simps) (simp add: b index_digits m ge100_div [OF assms] cong: sum.case_cong)
  show ?thesis
    by (subst allDigits_loop.simps) (simp add: a index_digits m ge100_div [OF assms] one cong: sum.case_cong)
qed

lemma itoa_digits_eq: "0 \<le> d \<Longrightarrow> itoa_digits buf j d = allDigits_loop buf j d"
proof (induction buf j d rule: itoa_loop.induct)
  case (1 buf j d)
  show ?case
  proof (cases "d \<ge> 100")
    case False
    with "1.prems" show ?thesis by (simp add: itoa_digits_small)
  next
    case True
    let ?k = "d mod 100"
    have k: "0 \<le> ?k" "?k < 100" by simp_all
    from True have r: "rem d 100 = ?k" "quo d 100 = d div 100"
      by (simp_all add: quo_nonneg rem_nonneg)
    have c1: "index ddigits (rem d 100 * 2 + 1) = Inr (digits ! nat (d mod 10))"
      using index_ddigits_hi [OF k] r by (simp add: mod100_mod10)
    have c0: "index ddigits (rem d 100 * 2) = Inr (digits ! nat (d div 10 mod 10))"
      using index_ddigits_lo [OF k] r by (simp add: mod100_div10)
    have ih: "\<And>buf1 buf2. store buf (j - 1) (digits ! nat (d mod 10)) = Inr buf1 \<Longrightarrow>
        store buf1 (j - 2) (digits ! nat (d div 10 mod 10)) = Inr buf2 \<Longrightarrow>
        itoa_digits buf2 (j - 2) (d div 100) = allDigits_loop buf2 (j - 2) (d div 100)"
      using "1.IH" [OF True c1 _ c0] ge100_div(3) [OF True] r(2) by simp
    show ?thesis
      unfolding itoa_digits_step [OF True] allDigits_loop_step [OF True]
      by (simp add: ih split: sum.splits)
  qed
qed

lemma itoa_eq_allDigits: "0 \<le> d \<Longrightarrow> itoa buf i d = allDigits buf i d"
  by (simp add: itoa_via_digits itoa_digits_eq allDigits_def)

lemma decimal_small: "d < 10 \<Longrightarrow> decimal d = [byte (48 + d)]"
  by (subst decimal.simps) simp

lemma decimal_large: "10 \<le> d \<Longrightarrow> decimal d = decimal (d div 10) @ [byte (48 + d mod 10)]"
  by (subst decimal.simps) simp

lemma decimal_nonempty: "decimal d \<noteq> []"
  by (subst decimal.simps) simp

lemma store_in_range:
  "m < length buf \<Longrightarrow> store buf (int m) c = Inr (take m buf @ c # drop (Suc m) buf)"
  by (simp add: store_def upd_conv_take_nth_drop)

lemma allDigits_loop_decimal:
  "0 \<le> d \<Longrightarrow> m \<le> length buf \<Longrightarrow> length (decimal d) \<le> m \<Longrightarrow>
   allDigits_loop buf (int m) d =
     Inr (take (m - length (decimal d)) buf @ decimal d @ drop m buf, int (m - length (decimal d)))"
proof (induction d arbitrary: m buf rule: decimal.induct)
  case (1 d)
  from "1.prems" decimal_nonempty [of d] obtain k where m: "m = Suc k"
    by (cases m) auto
  with "1.prems" have k: "k < length buf" by simp
  have j: "int m - 1 = int k" using m by simp
  have md: "0 \<le> d mod 10" "d mod 10 < 10" by simp_all
  have r: "rem d 10 = d mod 10" "quo d 10 = d div 10"
    using "1.prems"(1) by (simp_all add: quo_nonneg rem_nonneg)
  show ?case
  proof (cases "d < 10")
    case True
    with "1.prems"(1) have z: "d div 10 = 0" "d mod 10 = d" by simp_all
    show ?thesis
      using True "1.prems"(1) k
      by (subst allDigits_loop.simps)
         (simp add: r z index_digits j store_in_range decimal_small byte_digit m)
  next
    case False
    then have nz: "d div 10 \<noteq> 0" "0 \<le> d div 10" by simp_all
    let ?c = "digits ! nat (d mod 10)"
    let ?buf1 = "take k buf @ ?c # drop (Suc k) buf"
    have dec: "decimal d = decimal (d div 10) @ [?c]"
      using False by (simp add: decimal_large byte_digit md)
    have len: "length (decimal (d div 10)) \<le> k"
      using "1.prems"(3) dec m by simp
    have ih: "allDigits_loop ?buf1 (int k) (d div 10) =
      Inr (take (k - length (decimal (d div 10))) ?buf1 @ decimal (d div 10) @ drop k ?buf1,
           int (k - length (decimal (d div 10))))"
      using "1.IH" [OF False nz(2) _ len, of ?buf1] k by simp
    have t: "take (k - length (decimal (d div 10))) ?buf1 = take (k - length (decimal (d div 10))) buf"
      using k by simp
    have dr: "drop k ?buf1 = ?c # drop (Suc k) buf"
      using k by simp
    show ?thesis
      using k nz
      by (subst allDigits_loop.simps)
         (simp add: r md index_digits j store_in_range ih t dr dec m)
  qed
qed

lemma take_drop_mid: "length t = k \<Longrightarrow> take (length m) (drop k (t @ m @ r)) = m"
  by simp

lemma allDigits_decimal:
  assumes "0 \<le> d" "0 \<le> i" "i + int (length (decimal d)) \<le> int (length buf)"
  shows "\<exists>buf'. allDigits buf i d = Inr (buf', int (length (decimal d))) \<and>
           length buf' = length buf \<and>
           take (length (decimal d)) (drop (nat i) buf') = decimal d"
proof -
  let ?n = "length (decimal d)" and ?len = "length buf"
  let ?b = "take (?len - ?n) buf @ decimal d"
  from assms have n: "?n \<le> ?len" by simp
  have loop: "allDigits_loop buf (int ?len) d = Inr (?b, int (?len - ?n))"
    using allDigits_loop_decimal [OF assms(1) le_refl n] by simp
  have lb: "length ?b = ?len" using n by simp
  have i: "nat i \<le> ?len - ?n" using assms by simp
  have src: "drop (?len - ?n) ?b = decimal d" using n by simp
  have mn: "min (?len - nat i) ?n = ?n" using i n by simp
  have cp: "copy_within ?b i (int (?len - ?n)) =
      Inr (take (nat i) ?b @ decimal d @ drop ?n (drop (nat i) ?b), int ?n)"
  proof -
    have e: "nat (int ?len - int ?n) = ?len - ?n" by simp
    have e2: "?len - (?len - ?n) = ?n" using n by simp
    have sf1: "slice_from ?b i = Inr (drop (nat i) ?b)"
      using assms lb by (simp add: slice_from_def del: drop_append)
    have sf2: "slice_from ?b (int (?len - ?n)) = Inr (decimal d)"
      using lb src n by (simp add: slice_from_def e del: drop_append)
    have ld: "length (drop (nat i) ?b) = ?len - nat i" using lb by (simp del: drop_append)
    show ?thesis
      unfolding copy_within_def sf1 sf2 bnd_simps Let_def ld mn by simp
  qed
  have lt: "length (take (nat i) ?b) = nat i"
    using lb i by (simp del: take_append)
  have mid: "take ?n (drop (nat i) (take (nat i) ?b @ decimal d @ drop ?n (drop (nat i) ?b))) = decimal d"
    using take_drop_mid [OF lt] .
  have lr: "length (take (nat i) ?b @ decimal d @ drop ?n (drop (nat i) ?b)) = ?len"
    using lb i n by (simp del: drop_append take_append)
  show ?thesis
    unfolding allDigits_def loop bnd_simps prod.case cp
    using mid lr by blast
qed

lemma decimal_zero: "decimal 0 = ''0''"
  by (simp add: decimal_small byte_def char_of_def)

lemma decimal_hd: "0 < d \<Longrightarrow> hd (decimal d) \<noteq> CHR ''0''"
proof (induction d rule: decimal.induct)
  case (1 d)
  show ?case
  proof (cases "d < 10")
    case True
    with "1.prems" have "d = 1 \<or> d = 2 \<or> d = 3 \<or> d = 4 \<or> d = 5 \<or> d = 6 \<or> d = 7 \<or> d = 8 \<or> d = 9"
      by arith
    then show ?thesis
      by (elim disjE) (simp_all add: decimal_small byte_def char_of_def)
  next
    case False
    then have "0 < d div 10" by simp
    with "1.IH" [OF False] False show ?thesis
      by (simp add: decimal_large decimal_nonempty)
  qed
qed

text \<open>
  C8. For every non-negative \<open>d\<close>, the two-digits-per-iteration encoder \<open>itoa\<close> and
  the one-digit-per-iteration reference \<open>allDigits\<close> agree on every buffer and every
  destination index: same buffer contents and same count, or the same panic when the
  buffer is too short. When the digits fit (\<open>i\<close> plus the number of digits is at most
  the length of the buffer), \<open>itoa\<close> returns the number of digits and leaves the minimal
  decimal representation at index \<open>i\<close>; that representation is \<open>0\<close> for zero and has
  no leading zero otherwise.
\<close>

theorem itoa_refines_allDigits:
  "0 \<le> d \<Longrightarrow>
     itoa buf i d = allDigits buf i d \<and>
     (0 \<le> i \<and> i + int (length (decimal d)) \<le> int (length buf) \<longrightarrow>
        (\<exists>buf'. itoa buf i d = Inr (buf', int (length (decimal d))) \<and>
                length buf' = length buf \<and>
                take (length (decimal d)) (drop (nat i) buf') = decimal d)) \<and>
     decimal 0 = ''0'' \<and> (0 < d \<longrightarrow> hd (decimal d) \<noteq> CHR ''0'')"
  using allDigits_decimal [of d i buf]
  by (simp add: itoa_eq_allDigits decimal_zero decimal_hd)

theorem itoa_refines_allDigits_witness:
  "(0::int) \<le> 3456 \<and>
   itoa ''xxxxxxxx'' 0 3456 = allDigits ''xxxxxxxx'' 0 3456 \<and>
   itoa ''xxxxxxxx'' 0 3456 = Inr (''34563456'', 4) \<and>
   decimal 3456 = ''3456''"
proof -
  have v: "itoa ''xxxxxxxx'' 0 3456 = Inr (''34563456'', 4)" by code_simp
  have w: "decimal 3456 = ''3456''" by code_simp
  show ?thesis
    using itoa_refines_allDigits [of 3456 "''xxxxxxxx''" 0] v w by simp
qed

subsection \<open>Iteration that may panic\<close>

lemma foldM_append: "foldM step (xs @ ys) s = bnd (foldM step xs s) (foldM step ys)"
  by (induction xs arbitrary: s) (simp_all split: sum.splits)

lemma foldM_panics:
  assumes "x \<in> set xs" and "\<And>s. \<exists>e. step x s = Inl e"
  shows "\<exists>e. foldM step xs s = Inl e"
  using assms(1)
proof (induction xs arbitrary: s)
  case Nil
  then show ?case by simp
next
  case (Cons y ys)
  show ?case
  proof (cases "step y s")
    case (Inl e)
    then show ?thesis by simp
  next
    case (Inr s')
    show ?thesis
    proof (cases "x = y")
      case True
      with assms(2) [of s] Inr show ?thesis by simp
    next
      case False
      with Cons.prems have "x \<in> set ys" by simp
      from Cons.IH [OF this, of s'] Inr show ?thesis by simp
    qed
  qed
qed

subsection \<open>The line terminator\<close>

lemma Format_A_eq:
  "Format_A f data =
     (case foldM (Format_part_A (strings f) data) (parts f) ([], 0, tmp f) of
        Inl e \<Rightarrow> Inl e
      | Inr (buf, stringi, t1) \<Rightarrow>
          Inr (if buf \<noteq> [] \<and> last buf \<noteq> CHR 0x0A then buf @ [CHR 0x0A] else buf))"
  by (simp add: Format_A_def Format_state_A_def split: sum.splits prod.splits)

lemma Format_B_eq:
  "Format_B tb f context =
     (case foldM (Format_part_B tb (strings f) context) (parts f) ([], 0, tmp f, stmp f) of
        Inl e \<Rightarrow> Inl e
      | Inr (buf, stringi, t1, st1) \<Rightarrow>
          Inr (if buf \<noteq> [] \<and> last buf \<noteq> CHR 0x0A then buf @ [CHR 0x0A] else buf))"
  by (simp add: Format_B_def Format_state_B_def split: sum.splits prod.splits)

lemma NewStdFormatter_A_empty:
  "NewStdFormatter_A [] =
     \<lparr>frmt = [], strings = [], parts = [], tmp = replicate 64 (CHR 0x00), flags = 0\<rparr>"
  by (simp add: NewStdFormatter_A_def)

lemma FindAll_empty: "FindAllStringSubmatchIndex [] pos = []"
  by (subst FindAllStringSubmatchIndex.simps) simp

lemma NewStdFormatter_B_empty:
  "NewStdFormatter_B an [] =
     \<lparr>frmt = [], strings = [], parts = [], tmp = replicate 64 (CHR 0x00), flags = 0,
      layouts = [], stmp = []\<rparr>"
  by (simp add: NewStdFormatter_B_def FindAll_empty)

text \<open>
  C1. Whenever a renderer returns, its result is the output accumulated by the loop
  over the parts, with exactly one newline appended if that output is non-empty and
  does not end in a newline, and unchanged otherwise; so the result is empty or ends
  in a newline. This holds for every formatter value of either grammar and every
  record. The empty template compiles to a formatter that renders every record to the
  empty byte sequence.
\<close>

theorem Format_line_terminator:
  "(Format_A f data = Inr out \<longrightarrow>
      (\<exists>buf stringi t1.
         foldM (Format_part_A (strings f) data) (parts f) ([], 0, tmp f) = Inr (buf, stringi, t1) \<and>
         out = (if buf \<noteq> [] \<and> last buf \<noteq> CHR 0x0A then buf @ [CHR 0x0A] else buf)) \<and>
      (out = [] \<or> last out = CHR 0x0A)) \<and>
   (Format_B tb g context = Inr out' \<longrightarrow>
      (\<exists>buf stringi t1 st1.
         foldM (Format_part_B tb (strings g) context) (parts g) ([], 0, tmp g, stmp g)
           = Inr (buf, stringi, t1, st1) \<and>
         out' = (if buf \<noteq> [] \<and> last buf \<noteq> CHR 0x0A then buf @ [CHR 0x0A] else buf)) \<and>
      (out' = [] \<or> last out' = CHR 0x0A)) \<and>
   Format_A (NewStdFormatter_A []) data = Inr [] \<and>
   Format_B tb (NewStdFormatter_B an []) context = Inr []"
proof (intro conjI impI)
  assume a: "Format_A f data = Inr out"
  then obtain buf stringi t1 where
    l: "foldM (Format_part_A (strings f) data) (parts f) ([], 0, tmp f) = Inr (buf, stringi, t1)"
    and o: "out = (if buf \<noteq> [] \<and> last buf \<noteq> CHR 0x0A then buf @ [CHR 0x0A] else buf)"
    unfolding Format_A_eq by (auto split: sum.splits prod.splits)
  from l o show "\<exists>buf stringi t1.
         foldM (Format_part_A (strings f) data) (parts f) ([], 0, tmp f) = Inr (buf, stringi, t1) \<and>
         out = (if buf \<noteq> [] \<and> last buf \<noteq> CHR 0x0A then buf @ [CHR 0x0A] else buf)"
    by blast
  from o show "out = [] \<or> last out = CHR 0x0A" by (simp split: if_splits)
next
  assume a: "Format_B tb g context = Inr out'"
  then obtain buf stringi t1 st1 where
    l: "foldM (Format_part_B tb (strings g) context) (parts g) ([], 0, tmp g, stmp g)
           = Inr (buf, stringi, t1, st1)"
    and o: "out' = (if buf \<noteq> [] \<and> last buf \<noteq> CHR 0x0A then buf @ [CHR 0x0A] else buf)"
    unfolding Format_B_eq by (auto split: sum.splits prod.splits)
  from l o show "\<exists>buf stringi t1 st1.
         foldM (Format_part_B tb (strings g) context) (parts g) ([], 0, tmp g, stmp g)
           = Inr (buf, stringi, t1, st1) \<and>
         out' = (if buf \<noteq> [] \<and> last buf \<noteq> CHR 0x0A then buf @ [CHR 0x0A] else buf)"
    by blast
  from o show "out' = [] \<or> last out' = CHR 0x0A" by (simp split: if_splits)
next
  show "Format_A (NewStdFormatter_A []) data = Inr []"
    by (simp add: Format_A_eq NewStdFormatter_A_empty)
  show "Format_B tb (NewStdFormatter_B an []) context = Inr []"
    by (simp add: Format_B_eq NewStdFormatter_B_empty)
qed

theorem Format_line_terminator_witness:
  "Format_A (NewStdFormatter_A ''%L'') fmtTestsData = Inr (''PANIC'' @ [CHR 0x0A]) \<and>
   Format_B test_tables (NewStdFormatter_B test_ansi ''%{SEVERITY}'') fmtTestsContext
     = Inr (''PANIC'' @ [CHR 0x0A]) \<and>
   (\<exists>buf stringi t1.
      foldM (Format_part_A (strings (NewStdFormatter_A ''%L'')) fmtTestsData)
        (parts (NewStdFormatter_A ''%L'')) ([], 0, tmp (NewStdFormatter_A ''%L''))
        = Inr (buf, stringi, t1) \<and>
      ''PANIC'' @ [CHR 0x0A] = (if buf \<noteq> [] \<and> last buf \<noteq> CHR 0x0A then buf @ [CHR 0x0A] else buf))"
proof -
  have a: "Format_A (NewStdFormatter_A ''%L'') fmtTestsData = Inr (''PANIC'' @ [CHR 0x0A])"
    by code_simp
  have b: "Format_B test_tables (NewStdFormatter_B test_ansi ''%{SEVERITY}'') fmtTestsContext
     = Inr (''PANIC'' @ [CHR 0x0A])"
    by code_simp
  show ?thesis
    using Format_line_terminator [of "NewStdFormatter_A ''%L''" fmtTestsData "''PANIC'' @ [CHR 0x0A]"
        test_tables "NewStdFormatter_B test_ansi ''%{SEVERITY}''" fmtTestsContext
        "''PANIC'' @ [CHR 0x0A]" test_ansi] a b
    by blast
qed

subsection \<open>Severity verbs\<close>

lemma SeverityStrings_length: "length SeverityStrings = 10"
  by (simp add: SeverityStrings_def)

lemma Format_A_panics:
  assumes "p \<in> set (parts f)" and "\<And>s. \<exists>e. Format_part_A (strings f) data p s = Inl e"
  shows "\<exists>e. Format_A f data = Inl e"
proof -
  from foldM_panics [of p "parts f" "Format_part_A (strings f) data", OF assms]
  obtain e where "foldM (Format_part_A (strings f) data) (parts f) ([], 0, tmp f) = Inl e"
    by blast
  then show ?thesis by (simp add: Format_A_eq)
qed

lemma Format_B_panics:
  assumes "p \<in> set (parts f)" and "\<And>s. \<exists>e. Format_part_B tb (strings f) context p s = Inl e"
  shows "\<exists>e. Format_B tb f context = Inl e"
proof -
  from foldM_panics [of p "parts f" "Format_part_B tb (strings f) context", OF assms]
  obtain e where
    "foldM (Format_part_B tb (strings f) context) (parts f) ([], 0, tmp f, stmp f) = Inl e"
    by blast
  then show ?thesis by (simp add: Format_B_eq)
qed

lemma severity_part_A_out_of_range:
  assumes "p = vSEVERITY \<or> p = vSHORT_SEVERITY" and "Severity data < NONE \<or> PANIC < Severity data"
  shows "Format_part_A strs data p s = Inl IndexOutOfRange"
proof -
  obtain buf stringi t0 where s: "s = (buf, stringi, t0)" by (cases s) auto
  from assms show ?thesis
    by (auto simp: s index_def LongSeverityStrings_length SeverityStrings_length NONE_def PANIC_def)
qed

lemma severity_part_B:
  assumes "severity_table tb q = Some tab"
  shows "Format_part_B tb strs c q (buf, stringi, t0, st0) =
     bnd (index tab (ctx_Severity c)) (\<lambda>s. Inr (buf @ s, stringi, t0, st0))"
  using assms by (cases q) simp_all

lemma severity_part_B_out_of_range:
  assumes "severity_table tb q = Some tab"
    and "ctx_Severity c < 0 \<or> int (length tab) \<le> ctx_Severity c"
  shows "Format_part_B tb strs c q s = Inl IndexOutOfRange"
proof -
  obtain buf stringi t0 st0 where s: "s = (buf, stringi, t0, st0)" by (cases s) auto
  from assms(2) show ?thesis
    unfolding s severity_part_B [OF assms(1)] by (auto simp: index_def)
qed

lemma foldM_panics_at:
  "foldM step ps s = Inr s' \<Longrightarrow> step p s' = Inl e \<Longrightarrow> foldM step (ps @ p # rest) s = Inl e"
  by (simp add: foldM_append)

lemma Format_A_panics_at:
  assumes "parts f = ps @ p # rest"
    and "foldM (Format_part_A (strings f) data) ps ([], 0, tmp f) = Inr s"
    and "Format_part_A (strings f) data p s = Inl e"
  shows "Format_A f data = Inl e"
  using foldM_panics_at [OF assms(2) assms(3), of rest] assms(1) by (simp add: Format_A_eq)

lemma Format_B_panics_at:
  assumes "parts f = ps @ p # rest"
    and "foldM (Format_part_B tb (strings f) context) ps ([], 0, tmp f, stmp f) = Inr s"
    and "Format_part_B tb (strings f) context p s = Inl e"
  shows "Format_B tb f context = Inl e"
  using foldM_panics_at [OF assms(2) assms(3), of rest] assms(1) by (simp add: Format_B_eq)

text \<open>
  C2, as amended. The severity verbs index their table with the severity as it is: a
  severity inside the table is rendered as its entry, and there is no clamping. For a
  severity outside \<open>NONE..PANIC\<close> the severity verb panics with an index out of range.
  \<open>Format\<close> then panics on every formatter whose parts hold a severity verb, and its
  panic is the index out of range of the severity verb whenever the parts before that
  verb render without a panic. The same holds in Grammar B for each of the eight
  severity verbs and its table.
\<close>

theorem severity_verbs_do_not_clamp:
  "((p = vSEVERITY \<or> p = vSHORT_SEVERITY) \<and> (Severity data < NONE \<or> PANIC < Severity data) \<longrightarrow>
      Format_part_A strs data p (buf, stringi, t0) = Inl IndexOutOfRange \<and>
      (p \<in> set (parts f) \<longrightarrow> (\<exists>e. Format_A f data = Inl e)) \<and>
      (parts f = ps @ p # rest \<and>
       foldM (Format_part_A (strings f) data) ps ([], 0, tmp f) = Inr s \<longrightarrow>
         Format_A f data = Inl IndexOutOfRange)) \<and>
   (NONE \<le> Severity data \<and> Severity data \<le> PANIC \<longrightarrow>
      Format_part_A strs data vSEVERITY (buf, stringi, t0)
        = Inr (buf @ LongSeverityStrings ! nat (Severity data), stringi, t0) \<and>
      Format_part_A strs data vSHORT_SEVERITY (buf, stringi, t0)
        = Inr (buf @ SeverityStrings ! nat (Severity data), stringi, t0)) \<and>
   (severity_table tb q = Some tab \<and> (ctx_Severity c < 0 \<or> int (length tab) \<le> ctx_Severity c) \<longrightarrow>
      Format_part_B tb strs c q (buf, stringi, t0, st0) = Inl IndexOutOfRange \<and>
      (q \<in> set (parts g) \<longrightarrow> (\<exists>e. Format_B tb g c = Inl e)) \<and>
      (parts g = qs @ q # rest' \<and>
       foldM (Format_part_B tb (strings g) c) qs ([], 0, tmp g, stmp g) = Inr s' \<longrightarrow>
         Format_B tb g c = Inl IndexOutOfRange)) \<and>
   (severity_table tb q = Some tab \<and> 0 \<le> ctx_Severity c \<and> ctx_Severity c < int (length tab) \<longrightarrow>
      Format_part_B tb strs c q (buf, stringi, t0, st0)
        = Inr (buf @ tab ! nat (ctx_Severity c), stringi, t0, st0))"
proof (intro conjI impI)
  assume a: "(p = vSEVERITY \<or> p = vSHORT_SEVERITY) \<and> (Severity data < NONE \<or> PANIC < Severity data)"
  then have p: "p = vSEVERITY \<or> p = vSHORT_SEVERITY"
    and r: "Severity data < NONE \<or> PANIC < Severity data" by simp_all
  show "Format_part_A strs data p (buf, stringi, t0) = Inl IndexOutOfRange"
    by (rule severity_part_A_out_of_range [OF p r])
  {
    assume "p \<in> set (parts f)"
    then show "\<exists>e. Format_A f data = Inl e"
      using severity_part_A_out_of_range [OF p r] by (intro Format_A_panics [of p]) blast+
  }
  assume b: "parts f = ps @ p # rest \<and>
       foldM (Format_part_A (strings f) data) ps ([], 0, tmp f) = Inr s"
  show "Format_A f data = Inl IndexOutOfRange"
    by (rule Format_A_panics_at [OF b [THEN conjunct1] b [THEN conjunct2]
          severity_part_A_out_of_range [OF p r]])
next
  assume "NONE \<le> Severity data \<and> Severity data \<le> PANIC"
  then show "Format_part_A strs data vSEVERITY (buf, stringi, t0)
        = Inr (buf @ LongSeverityStrings ! nat (Severity data), stringi, t0)"
    and "Format_part_A strs data vSHORT_SEVERITY (buf, stringi, t0)
        = Inr (buf @ SeverityStrings ! nat (Severity data), stringi, t0)"
    by (simp_all add: index_def LongSeverityStrings_length SeverityStrings_length NONE_def PANIC_def)
next
  assume a: "severity_table tb q = Some tab \<and> (ctx_Severity c < 0 \<or> int (length tab) \<le> ctx_Severity c)"
  then have q: "severity_table tb q = Some tab"
    and r: "ctx_Severity c < 0 \<or> int (length tab) \<le> ctx_Severity c" by simp_all
  show "Format_part_B tb strs c q (buf, stringi, t0, st0) = Inl IndexOutOfRange"
    by (rule severity_part_B_out_of_range [OF q r])
  {
    assume "q \<in> set (parts g)"
    then show "\<exists>e. Format_B tb g c = Inl e"
      using severity_part_B_out_of_range [OF q r] by (intro Format_B_panics [of q]) blast+
  }
  assume b: "parts g = qs @ q # rest' \<and>
       foldM (Format_part_B tb (strings g) c) qs ([], 0, tmp g, stmp g) = Inr s'"
  show "Format_B tb g c = Inl IndexOutOfRange"
    by (rule Format_B_panics_at [OF b [THEN conjunct1] b [THEN conjunct2]
          severity_part_B_out_of_range [OF q r]])
next
  assume "severity_table tb q = Some tab \<and> 0 \<le> ctx_Severity c \<and> ctx_Severity c < int (length tab)"
  then show "Format_part_B tb strs c q (buf, stringi, t0, st0)
        = Inr (buf @ tab ! nat (ctx_Severity c), stringi, t0, st0)"
    using severity_part_B [of tb q tab strs c buf stringi t0 st0] by (simp add: index_def)
qed

theorem severity_verbs_do_not_clamp_witness:
  "vSEVERITY \<in> set (parts (NewStdFormatter_A ''[%L]'')) \<and>
   PANIC < Severity (fmtTestsData\<lparr>Severity := 10\<rparr>) \<and>
   (\<exists>e. Format_A (NewStdFormatter_A ''[%L]'') (fmtTestsData\<lparr>Severity := 10\<rparr>) = Inl e) \<and>
   parts (NewStdFormatter_A ''[%L]'') = [vSTRING] @ vSEVERITY # [vSTRING] \<and>
   foldM (Format_part_A (strings (NewStdFormatter_A ''[%L]'')) (fmtTestsData\<lparr>Severity := 10\<rparr>))
     [vSTRING] ([], 0, tmp (NewStdFormatter_A ''[%L]''))
     = Inr (''['', 1, replicate 64 (CHR 0x00)) \<and>
   Format_A (NewStdFormatter_A ''[%L]'') (fmtTestsData\<lparr>Severity := 10\<rparr>) = Inl IndexOutOfRange \<and>
   severity_table test_tables vSEVERITY_B = Some LongSeverityStrings \<and>
   vSEVERITY_B \<in> set (parts (NewStdFormatter_B test_ansi ''%{SEVERITY}'')) \<and>
   ctx_Severity (fmtTestsContext\<lparr>ctx_Severity := - 1\<rparr>) < 0 \<and>
   (\<exists>e. Format_B test_tables (NewStdFormatter_B test_ansi ''%{SEVERITY}'')
          (fmtTestsContext\<lparr>ctx_Severity := - 1\<rparr>) = Inl e) \<and>
   parts (NewStdFormatter_B test_ansi ''%{SEVERITY}'') = [] @ vSEVERITY_B # [] \<and>
   Format_B test_tables (NewStdFormatter_B test_ansi ''%{SEVERITY}'')
          (fmtTestsContext\<lparr>ctx_Severity := - 1\<rparr>) = Inl IndexOutOfRange \<and>
   NONE \<le> Severity fmtTestsData \<and> Severity fmtTestsData \<le> PANIC \<and>
   Format_part_A [] fmtTestsData vSEVERITY ([], 0, [])
     = Inr ([] @ LongSeverityStrings ! nat (Severity fmtTestsData), 0, [])"
proof -
  let ?d = "fmtTestsData\<lparr>Severity := 10\<rparr>"
  let ?c = "fmtTestsContext\<lparr>ctx_Severity := - 1\<rparr>"
  have a: "parts (NewStdFormatter_A ''[%L]'') = [vSTRING] @ vSEVERITY # [vSTRING]" by code_simp
  have b: "parts (NewStdFormatter_B test_ansi ''%{SEVERITY}'') = [] @ vSEVERITY_B # []" by code_simp
  have sa: "strings (NewStdFormatter_A ''[%L]'') = [''['', '']'']" by code_simp
  have ta: "tmp (NewStdFormatter_A ''[%L]'') = replicate 64 (CHR 0x00)" by code_simp
  have fa: "foldM (Format_part_A (strings (NewStdFormatter_A ''[%L]'')) ?d)
     [vSTRING] ([], 0, tmp (NewStdFormatter_A ''[%L]'')) = Inr (''['', 1, replicate 64 (CHR 0x00))"
    unfolding sa ta by (simp add: index_def)
  have fb: "foldM (Format_part_B test_tables (strings (NewStdFormatter_B test_ansi ''%{SEVERITY}'')) ?c)
     [] ([], 0, tmp (NewStdFormatter_B test_ansi ''%{SEVERITY}''), stmp (NewStdFormatter_B test_ansi ''%{SEVERITY}''))
     = Inr ([], 0, tmp (NewStdFormatter_B test_ansi ''%{SEVERITY}''), stmp (NewStdFormatter_B test_ansi ''%{SEVERITY}''))"
    by simp
  have m: "vSEVERITY \<in> set (parts (NewStdFormatter_A ''[%L]''))" by (simp add: a)
  have n: "vSEVERITY_B \<in> set (parts (NewStdFormatter_B test_ansi ''%{SEVERITY}''))"
    by (simp add: b)
  have c: "severity_table test_tables vSEVERITY_B = Some LongSeverityStrings"
    by (simp add: test_tables_def)
  have r: "PANIC < Severity ?d" by (simp add: PANIC_def)
  have r': "ctx_Severity ?c < 0" by simp
  have d: "NONE \<le> Severity fmtTestsData" "Severity fmtTestsData \<le> PANIC"
    by (simp_all add: fmtTestsData_def PANIC_def NONE_def)
  note t1 = severity_verbs_do_not_clamp [where p = vSEVERITY and data = ?d
      and f = "NewStdFormatter_A ''[%L]''" and ps = "[vSTRING]" and rest = "[vSTRING]"
      and s = "(''['', 1, replicate 64 (CHR 0x00))"]
  have 1: "\<exists>e. Format_A (NewStdFormatter_A ''[%L]'') ?d = Inl e"
    using t1 m r by blast
  have 2: "Format_A (NewStdFormatter_A ''[%L]'') ?d = Inl IndexOutOfRange"
    using t1 a fa r by blast
  note t2 = severity_verbs_do_not_clamp [where tb = test_tables and q = vSEVERITY_B
      and tab = LongSeverityStrings and c = ?c and g = "NewStdFormatter_B test_ansi ''%{SEVERITY}''"
      and qs = "[]" and rest' = "[]"]
  have 3: "\<exists>e. Format_B test_tables (NewStdFormatter_B test_ansi ''%{SEVERITY}'') ?c = Inl e"
    using t2 n c r' by blast
  have 4: "Format_B test_tables (NewStdFormatter_B test_ansi ''%{SEVERITY}'') ?c = Inl IndexOutOfRange"
    using t2 b fb c r' by blast
  have 5: "Format_part_A [] fmtTestsData vSEVERITY ([], 0, [])
     = Inr ([] @ LongSeverityStrings ! nat (Severity fmtTestsData), 0, [])"
    using severity_verbs_do_not_clamp [where data = fmtTestsData and strs = "[]" and buf = "[]"
        and stringi = 0 and ?t0.0 = "[]"] d by blast
  from m r 1 a fa 2 c n r' 3 b 4 d 5 show ?thesis by blast
qed

theorem severity_out_of_range_counterexample:
  "Format_A (NewStdFormatter_A ''%L'') (fmtTestsData\<lparr>Severity := 10\<rparr>) = Inl IndexOutOfRange \<and>
   Format_A (NewStdFormatter_A ''%l'') (fmtTestsData\<lparr>Severity := - 1\<rparr>) = Inl IndexOutOfRange \<and>
   Format_B test_tables (NewStdFormatter_B test_ansi ''%{SEVERITY}'')
     (fmtTestsContext\<lparr>ctx_Severity := 10\<rparr>) = Inl IndexOutOfRange"
  by code_simp

subsection \<open>The extra-short file verb\<close>

lemma extra_short_part_A_short:
  assumes "File data \<noteq> []" "length (base_name (File data)) < 3"
  shows "Format_part_A strs data vEXTRA_SHORT_FILE s = Inl SliceBoundsOutOfRange"
proof -
  obtain buf stringi t0 where s: "s = (buf, stringi, t0)" by (cases s) auto
  from assms show ?thesis by (simp add: s slice_to_def)
qed

lemma short_file_part_B_short:
  assumes "ctx_File c \<noteq> []" "length (base_name (ctx_File c)) < 3"
  shows "Format_part_B tb strs c vShortFile s = Inl SliceBoundsOutOfRange"
proof -
  obtain buf stringi t0 st0 where s: "s = (buf, stringi, t0, st0)" by (cases s) auto
  from assms show ?thesis by (simp add: s slice_to_def)
qed

text \<open>
  C3, as amended. The extra-short file verb cuts the last three bytes off the base
  name with \<open>file[:len(file)-3]\<close> and has no guard. With a non-empty \<open>File\<close> whose
  base name has at least three bytes it renders the base name without its last three
  bytes. With a non-empty \<open>File\<close> whose base name has fewer than three bytes the verb
  panics with slice bounds out of range. \<open>Format\<close> then panics on every formatter
  whose parts hold the verb, and its panic is the slice-bounds panic of the verb
  whenever the parts before the verb render without a panic. In Grammar A an empty
  \<open>File\<close> renders the placeholder \<open>???\<close>.
\<close>

theorem extra_short_file_slices_unguarded:
  "(File data \<noteq> [] \<and> length (base_name (File data)) < 3 \<longrightarrow>
      Format_part_A strs data vEXTRA_SHORT_FILE (buf, stringi, t0) = Inl SliceBoundsOutOfRange \<and>
      (vEXTRA_SHORT_FILE \<in> set (parts f) \<longrightarrow> (\<exists>e. Format_A f data = Inl e)) \<and>
      (parts f = ps @ vEXTRA_SHORT_FILE # rest \<and>
       foldM (Format_part_A (strings f) data) ps ([], 0, tmp f) = Inr s \<longrightarrow>
         Format_A f data = Inl SliceBoundsOutOfRange)) \<and>
   (File data \<noteq> [] \<and> 3 \<le> length (base_name (File data)) \<longrightarrow>
      Format_part_A strs data vEXTRA_SHORT_FILE (buf, stringi, t0)
        = Inr (buf @ take (length (base_name (File data)) - 3) (base_name (File data)), stringi, t0)) \<and>
   (File data = [] \<longrightarrow>
      Format_part_A strs data vEXTRA_SHORT_FILE (buf, stringi, t0) = Inr (buf @ ''???'', stringi, t0)) \<and>
   (ctx_File c \<noteq> [] \<and> length (base_name (ctx_File c)) < 3 \<longrightarrow>
      Format_part_B tb strs c vShortFile (buf, stringi, t0, st0) = Inl SliceBoundsOutOfRange \<and>
      (vShortFile \<in> set (parts g) \<longrightarrow> (\<exists>e. Format_B tb g c = Inl e)) \<and>
      (parts g = qs @ vShortFile # rest' \<and>
       foldM (Format_part_B tb (strings g) c) qs ([], 0, tmp g, stmp g) = Inr s' \<longrightarrow>
         Format_B tb g c = Inl SliceBoundsOutOfRange)) \<and>
   (ctx_File c \<noteq> [] \<and> 3 \<le> length (base_name (ctx_File c)) \<longrightarrow>
      Format_part_B tb strs c vShortFile (buf, stringi, t0, st0)
        = Inr (buf @ take (length (base_name (ctx_File c)) - 3) (base_name (ctx_File c)),
               stringi, t0, st0))"
proof (intro conjI impI)
  assume a: "File data \<noteq> [] \<and> length (base_name (File data)) < 3"
  then have n: "File data \<noteq> []" and l: "length (base_name (File data)) < 3" by simp_all
  show "Format_part_A strs data vEXTRA_SHORT_FILE (buf, stringi, t0) = Inl SliceBoundsOutOfRange"
    by (rule extra_short_part_A_short [OF n l])
  {
    assume "vEXTRA_SHORT_FILE \<in> set (parts f)"
    then show "\<exists>e. Format_A f data = Inl e"
      using extra_short_part_A_short [OF n l] by (intro Format_A_panics [of vEXTRA_SHORT_FILE]) blast+
  }
  assume b: "parts f = ps @ vEXTRA_SHORT_FILE # rest \<and>
       foldM (Format_part_A (strings f) data) ps ([], 0, tmp f) = Inr s"
  show "Format_A f data = Inl SliceBoundsOutOfRange"
    by (rule Format_A_panics_at [OF b [THEN conjunct1] b [THEN conjunct2]
          extra_short_part_A_short [OF n l]])
next
  assume "File data \<noteq> [] \<and> 3 \<le> length (base_name (File data))"
  then show "Format_part_A strs data vEXTRA_SHORT_FILE (buf, stringi, t0)
        = Inr (buf @ take (length (base_name (File data)) - 3) (base_name (File data)), stringi, t0)"
    by (simp add: slice_to_def nat_diff_distrib)
next
  assume "File data = []"
  then show "Format_part_A strs data vEXTRA_SHORT_FILE (buf, stringi, t0)
    = Inr (buf @ ''???'', stringi, t0)"
    by simp
next
  assume a: "ctx_File c \<noteq> [] \<and> length (base_name (ctx_File c)) < 3"
  then have n: "ctx_File c \<noteq> []" and l: "length (base_name (ctx_File c)) < 3" by simp_all
  show "Format_part_B tb strs c vShortFile (buf, stringi, t0, st0) = Inl SliceBoundsOutOfRange"
    by (rule short_file_part_B_short [OF n l])
  {
    assume "vShortFile \<in> set (parts g)"
    then show "\<exists>e. Format_B tb g c = Inl e"
      using short_file_part_B_short [OF n l] by (intro Format_B_panics [of vShortFile]) blast+
  }
  assume b: "parts g = qs @ vShortFile # rest' \<and>
       foldM (Format_part_B tb (strings g) c) qs ([], 0, tmp g, stmp g) = Inr s'"
  show "Format_B tb g c = Inl SliceBoundsOutOfRange"
    by (rule Format_B_panics_at [OF b [THEN conjunct1] b [THEN conjunct2]
          short_file_part_B_short [OF n l]])
next
  assume "ctx_File c \<noteq> [] \<and> 3 \<le> length (base_name (ctx_File c))"
  then show "Format_part_B tb strs c vShortFile (buf, stringi, t0, st0)
        = Inr (buf @ take (length (base_name (ctx_File c)) - 3) (base_name (ctx_File c)),
               stringi, t0, st0)"
    by (simp add: slice_to_def nat_diff_distrib Let_def)
qed

theorem extra_short_file_slices_unguarded_witness:
  "File (fmtTestsData\<lparr>File := ''ab''\<rparr>) \<noteq> [] \<and>
   length (base_name (File (fmtTestsData\<lparr>File := ''ab''\<rparr>))) < 3 \<and>
   vEXTRA_SHORT_FILE \<in> set (parts (NewStdFormatter_A ''%f %x'')) \<and>
   (\<exists>e. Format_A (NewStdFormatter_A ''%f %x'') (fmtTestsData\<lparr>File := ''ab''\<rparr>) = Inl e) \<and>
   parts (NewStdFormatter_A ''%f %x'') = [vSHORT_FILE, vSTRING] @ vEXTRA_SHORT_FILE # [] \<and>
   foldM (Format_part_A (strings (NewStdFormatter_A ''%f %x'')) (fmtTestsData\<lparr>File := ''ab''\<rparr>))
     [vSHORT_FILE, vSTRING] ([], 0, tmp (NewStdFormatter_A ''%f %x''))
     = Inr (''ab '', 1, replicate 64 (CHR 0x00)) \<and>
   Format_A (NewStdFormatter_A ''%f %x'') (fmtTestsData\<lparr>File := ''ab''\<rparr>)
     = Inl SliceBoundsOutOfRange \<and>
   File fmtTestsData \<noteq> [] \<and> 3 \<le> length (base_name (File fmtTestsData)) \<and>
   Format_part_A [] fmtTestsData vEXTRA_SHORT_FILE ([], 0, []) = Inr (''testing'', 0, []) \<and>
   Format_part_A [] (fmtTestsData\<lparr>File := []\<rparr>) vEXTRA_SHORT_FILE ([], 0, []) = Inr (''???'', 0, []) \<and>
   vShortFile \<in> set (parts (NewStdFormatter_B test_ansi ''%{ShortFile}'')) \<and>
   ctx_File (fmtTestsContext\<lparr>ctx_File := ''/a''\<rparr>) \<noteq> [] \<and>
   length (base_name (ctx_File (fmtTestsContext\<lparr>ctx_File := ''/a''\<rparr>))) < 3 \<and>
   (\<exists>e. Format_B test_tables (NewStdFormatter_B test_ansi ''%{ShortFile}'')
          (fmtTestsContext\<lparr>ctx_File := ''/a''\<rparr>) = Inl e) \<and>
   parts (NewStdFormatter_B test_ansi ''%{ShortFile}'') = [] @ vShortFile # [] \<and>
   Format_B test_tables (NewStdFormatter_B test_ansi ''%{ShortFile}'')
          (fmtTestsContext\<lparr>ctx_File := ''/a''\<rparr>) = Inl SliceBoundsOutOfRange"
proof -
  let ?d = "fmtTestsData\<lparr>File := ''ab''\<rparr>"
  let ?c = "fmtTestsContext\<lparr>ctx_File := ''/a''\<rparr>"
  let ?g = "NewStdFormatter_B test_ansi ''%{ShortFile}''"
  have b1: "base_name ''ab'' = ''ab''" by code_simp
  have b2: "base_name ''/path/to/testing.go'' = ''testing.go''" by code_simp
  have b3: "base_name ''/a'' = ''a''" by code_simp
  have pa: "parts (NewStdFormatter_A ''%f %x'') = [vSHORT_FILE, vSTRING] @ vEXTRA_SHORT_FILE # []"
    by code_simp
  have sa: "strings (NewStdFormatter_A ''%f %x'') = ['' '']" by code_simp
  have ta: "tmp (NewStdFormatter_A ''%f %x'') = replicate 64 (CHR 0x00)" by code_simp
  have fa: "foldM (Format_part_A (strings (NewStdFormatter_A ''%f %x'')) ?d)
     [vSHORT_FILE, vSTRING] ([], 0, tmp (NewStdFormatter_A ''%f %x''))
     = Inr (''ab '', 1, replicate 64 (CHR 0x00))"
    unfolding sa ta by (simp add: index_def b1)
  have pb: "parts ?g = [] @ vShortFile # []" by code_simp
  have fb: "foldM (Format_part_B test_tables (strings ?g) ?c) [] ([], 0, tmp ?g, stmp ?g)
     = Inr ([], 0, tmp ?g, stmp ?g)"
    by simp
  have h1: "File ?d \<noteq> []" "length (base_name (File ?d)) < 3"
    by (simp_all add: b1)
  have h2: "File fmtTestsData \<noteq> []" "3 \<le> length (base_name (File fmtTestsData))"
    by (simp_all add: fmtTestsData_def b2)
  have h3: "ctx_File ?c \<noteq> []" "length (base_name (ctx_File ?c)) < 3"
    by (simp_all add: b3)
  have h4: "File (fmtTestsData\<lparr>File := []\<rparr>) = []" by simp
  have m: "vEXTRA_SHORT_FILE \<in> set (parts (NewStdFormatter_A ''%f %x''))" by (simp add: pa)
  have n: "vShortFile \<in> set (parts ?g)" by (simp add: pb)
  note t1 = extra_short_file_slices_unguarded [where data = ?d
      and f = "NewStdFormatter_A ''%f %x''" and ps = "[vSHORT_FILE, vSTRING]" and rest = "[]"
      and s = "(''ab '', 1, replicate 64 (CHR 0x00))"]
  have 1: "\<exists>e. Format_A (NewStdFormatter_A ''%f %x'') ?d = Inl e"
    using t1 h1 m by blast
  have 2: "Format_A (NewStdFormatter_A ''%f %x'') ?d = Inl SliceBoundsOutOfRange"
    using t1 h1 pa fa by blast
  have "Format_part_A [] fmtTestsData vEXTRA_SHORT_FILE ([], 0, [])
      = Inr ([] @ take (length (base_name (File fmtTestsData)) - 3) (base_name (File fmtTestsData)), 0, [])"
    using extra_short_file_slices_unguarded [where data = fmtTestsData and strs = "[]" and buf = "[]"
        and stringi = 0 and ?t0.0 = "[]"] h2 by blast
  then have 3: "Format_part_A [] fmtTestsData vEXTRA_SHORT_FILE ([], 0, []) = Inr (''testing'', 0, [])"
    by (simp add: fmtTestsData_def b2)
  have "Format_part_A [] (fmtTestsData\<lparr>File := []\<rparr>) vEXTRA_SHORT_FILE ([], 0, [])
      = Inr ([] @ ''???'', 0, [])"
    using extra_short_file_slices_unguarded [where data = "fmtTestsData\<lparr>File := []\<rparr>"
        and strs = "[]" and buf = "[]" and stringi = 0 and ?t0.0 = "[]"] h4 by blast
  then have 4: "Format_part_A [] (fmtTestsData\<lparr>File := []\<rparr>) vEXTRA_SHORT_FILE ([], 0, [])
      = Inr (''???'', 0, [])"
    by simp
  note t2 = extra_short_file_slices_unguarded [where c = ?c and tb = test_tables and g = ?g
      and qs = "[]" and rest' = "[]"]
  have 5: "\<exists>e. Format_B test_tables ?g ?c = Inl e"
    using t2 h3 n by blast
  have 6: "Format_B test_tables ?g ?c = Inl SliceBoundsOutOfRange"
    using t2 h3 pb fb by blast
  from h1 m 1 pa fa 2 h2 3 4 n h3 5 pb 6 show ?thesis by blast
qed

theorem extra_short_file_counterexample:
  "length (base_name ''ab'') < 3 \<and>
   Format_A (NewStdFormatter_A ''%x'') (fmtTestsData\<lparr>File := ''ab''\<rparr>) = Inl SliceBoundsOutOfRange \<and>
   Format_B test_tables (NewStdFormatter_B test_ansi ''%{ShortFile}'')
     (fmtTestsContext\<lparr>ctx_File := ''ab''\<rparr>) = Inl SliceBoundsOutOfRange"
  by code_simp

subsection \<open>The flags of a compiled format\<close>







lemma verb_of_rune_not_string: "verb_of_rune c = Some v \<Longrightarrow> v \<noteq> vSTRING"
  by (auto simp: verb_of_rune_def split: if_splits)












subsection \<open>Unknown names in Grammar B\<close>

text \<open>
  C4. The compiler of Grammar B looks the name of every match of \<open>formatRe\<close> up in
  \<open>verbMap\<close> and, when the name is missing, appends nothing and moves \<open>prev\<close> past the
  match: the token \<open>%{Foo}\<close> is dropped from the output, with its wrapper. The
  compiler of Grammar A keeps an unknown verb as literal text.
\<close>

theorem unknown_name_is_dropped:
  "verbMap ''Foo'' = None \<and>
   Format_B tb (NewStdFormatter_B an ''a%{Foo}b'') context = Inr (''ab'' @ [CHR 0x0A]) \<and>
   Format_B tb (NewStdFormatter_B an ''%{notsupported}'') context = Inr [] \<and>
   Format_B tb (NewStdFormatter_B an ''%{Foo bar}'') context = Inr [] \<and>
   Format_A (NewStdFormatter_A ''%notsupported'') data = Inr (''%notsupported'' @ [CHR 0x0A])"
  by code_simp

subsection \<open>The safe-message verb\<close>

text \<open>
  C9. The safe-message verb writes a backslash and an \<open>x\<close> and then calls
  \<open>twoDigits\<close>, which writes decimal digits: the newline (byte 10) becomes \<open>\x10\<close>
  and byte 31 becomes \<open>\x31\<close>, where the hexadecimal escapes are \<open>\x0a\<close> and
  \<open>\x1f\<close>. The loop ranges over runes and appends \<open>byte(c)\<close>: the two bytes of a
  non-ASCII character become the single low byte of its code point.
\<close>

theorem SafeMessage_writes_decimal_digits:
  "Format_B tb (NewStdFormatter_B an ''%{SafeMessage}'')
     \<lparr>ctx_Time = tm, ctx_Severity = sev, ctx_File = file, ctx_Line = line, ctx_Function = fn,
      ctx_Message = [CHR 0x0A], ctx_Pid = pid\<rparr>
     = Inr (CHR 0x5C # ''x10'' @ [CHR 0x0A]) \<and>
   Format_B tb (NewStdFormatter_B an ''%{SafeMessage}'')
     \<lparr>ctx_Time = tm, ctx_Severity = sev, ctx_File = file, ctx_Line = line, ctx_Function = fn,
      ctx_Message = [CHR 0x1F, CHR 0x09, CHR ''a''], ctx_Pid = pid\<rparr>
     = Inr (CHR 0x5C # ''x31'' @ CHR 0x5C # ''x09a'' @ [CHR 0x0A]) \<and>
   Format_B tb (NewStdFormatter_B an ''%{SafeMessage}'')
     \<lparr>ctx_Time = tm, ctx_Severity = sev, ctx_File = file, ctx_Line = line, ctx_Function = fn,
      ctx_Message = [CHR 0xC3, CHR 0xA9], ctx_Pid = pid\<rparr>
     = Inr [CHR 0xE9, CHR 0x0A]"
  by code_simp

subsection \<open>Literal text\<close>

lemma byte_rune: "byte (rune c) = c"
  by (simp add: byte_def rune_def)

lemma rune_eq_iff: "rune c = rune d \<longleftrightarrow> c = d"
  by (simp add: rune_def)

lemma range_string_ascii:
  "\<forall>c\<in>set s. rune c < 128 \<Longrightarrow> range_string s = map rune s"
  by (induction s) simp_all

lemma verb_of_rune_percent: "verb_of_rune (rune CHR ''%'') = None"
  by (simp add: verb_of_rune_def rune_def)

lemma NewStdFormatter_step_literal:
  "CHR ''%'' \<notin> set s \<Longrightarrow>
   fold NewStdFormatter_step (map rune s) (False, raw, f) = (False, raw @ s, f)"
  by (induction s arbitrary: raw) (auto simp: NewStdFormatter_step_def rune_eq_iff byte_rune)

lemma Format_part_A_strings:
  "foldM (Format_part_A (seen @ ss) data) (replicate (length ss) vSTRING) (buf, int (length seen), t0)
     = Inr (buf @ concat ss, int (length seen + length ss), t0)"
proof (induction ss arbitrary: seen buf)
  case Nil
  then show ?case by simp
next
  case (Cons s ss)
  have "index (seen @ s # ss) (int (length seen)) = Inr s"
    by (simp add: index_def)
  then show ?case
    using Cons.IH [of "seen @ [s]" "buf @ s"] by (simp add: add.commute)
qed

lemma Format_part_B_strings:
  "foldM (Format_part_B tb (seen @ ss) c) (replicate (length ss) vSTRING_B)
       (buf, int (length seen), t0, st0)
     = Inr (buf @ concat ss, int (length seen + length ss), t0, st0)"
proof (induction ss arbitrary: seen buf)
  case Nil
  then show ?case by simp
next
  case (Cons s ss)
  have "index (seen @ s # ss) (int (length seen)) = Inr s"
    by (simp add: index_def)
  then show ?case
    using Cons.IH [of "seen @ [s]" "buf @ s"] by (simp add: add.commute)
qed

lemma Format_A_literal:
  assumes "parts f = replicate (length (strings f)) vSTRING"
  shows "Format_A f data =
     Inr (if concat (strings f) \<noteq> [] \<and> last (concat (strings f)) \<noteq> CHR 0x0A
          then concat (strings f) @ [CHR 0x0A] else concat (strings f))"
  using Format_part_A_strings [of "[]" "strings f" data "[]" "tmp f"] assms
  by (simp add: Format_A_eq)

lemma Format_B_literal:
  assumes "parts f = replicate (length (strings f)) vSTRING_B"
  shows "Format_B tb f c =
     Inr (if concat (strings f) \<noteq> [] \<and> last (concat (strings f)) \<noteq> CHR 0x0A
          then concat (strings f) @ [CHR 0x0A] else concat (strings f))"
  using Format_part_B_strings [of tb "[]" "strings f" c "[]" "tmp f" "stmp f"] assms
  by (simp add: Format_B_eq)

lemma NewStdFormatter_A_literal:
  assumes "\<forall>c\<in>set t. rune c < 128" "CHR ''%'' \<notin> set t"
  shows "strings (NewStdFormatter_A t) = (if t = [] then [] else [t])"
    and "parts (NewStdFormatter_A t) = (if t = [] then [] else [vSTRING])"
  using assms
  by (simp_all add: NewStdFormatter_A_def range_string_ascii NewStdFormatter_step_literal)

lemma NewStdFormatter_B_literal:
  assumes "FindAllStringSubmatchIndex t 0 = []"
  shows "strings (NewStdFormatter_B an t) = (if t = [] then [] else [t])"
    and "parts (NewStdFormatter_B an t) = (if t = [] then [] else [vSTRING_B])"
  using assms by (simp_all add: NewStdFormatter_B_def appendString_def)

lemma match_here_needs_brace: "CHR ''{'' \<notin> set s \<Longrightarrow> match_here s = None"
  by (auto simp: match_here_def split: list.splits)

lemma match_here_needs_percent: "CHR ''%'' \<notin> set s \<Longrightarrow> match_here s = None"
  by (auto simp: match_here_def split: list.splits)

lemma FindAll_no_match:
  "(\<And>p. match_here (drop p fr) = None) \<Longrightarrow> FindAllStringSubmatchIndex fr pos = []"
proof (induction fr pos rule: FindAllStringSubmatchIndex.induct)
  case (1 fr pos)
  show ?case
  proof (cases "pos \<ge> length fr")
    case True
    then show ?thesis by (subst FindAllStringSubmatchIndex.simps) simp
  next
    case False
    with "1.IH"(1) [OF False "1.prems"(1) [of pos]] "1.prems" show ?thesis
      by (subst FindAllStringSubmatchIndex.simps) simp
  qed
qed

lemma FindAll_no_brace:
  "CHR ''{'' \<notin> set fr \<Longrightarrow> FindAllStringSubmatchIndex fr pos = []"
  by (rule FindAll_no_match) (meson in_set_dropD match_here_needs_brace)

lemma FindAll_no_percent:
  "CHR ''%'' \<notin> set fr \<Longrightarrow> FindAllStringSubmatchIndex fr pos = []"
  by (rule FindAll_no_match) (meson in_set_dropD match_here_needs_percent)


lemma NewStdFormatter_A_doubled:
  assumes "\<forall>c\<in>set pre \<union> set post. rune c < 128" "CHR ''%'' \<notin> set pre \<union> set post"
  shows "strings (NewStdFormatter_A (pre @ ''%%'' @ post))
           = (if pre = [] then [] else [pre]) @ [''%'' @ post]"
    and "parts (NewStdFormatter_A (pre @ ''%%'' @ post))
           = (if pre = [] then [] else [vSTRING]) @ [vSTRING]"
proof -
  define f0 :: "fmtVerb StdFormatter" where
    "f0 = \<lparr>frmt = pre @ ''%%'' @ post, strings = [], parts = [],
           tmp = replicate 64 (CHR 0x00), flags = 0\<rparr>"
  define f1 where
    "f1 = (if pre = [] then f0 else f0\<lparr>strings := strings f0 @ [pre], parts := parts f0 @ [vSTRING]\<rparr>)"
  have asc: "\<forall>c\<in>set (pre @ ''%%'' @ post). rune c < 128"
    using assms(1) by (auto simp: rune_def)
  have r: "range_string (pre @ ''%%'' @ post)
      = map rune pre @ rune CHR ''%'' # rune CHR ''%'' # map rune post"
    using range_string_ascii [OF asc] by simp
  have 1: "fold NewStdFormatter_step (map rune pre) (False, [], f0) = (False, pre, f0)"
    using NewStdFormatter_step_literal [of pre "[]" f0] assms(2) by simp
  have 2: "NewStdFormatter_step (rune CHR ''%'') (False, pre, f0) = (True, [], f1)"
    by (simp add: NewStdFormatter_step_def f1_def)
  have 3: "NewStdFormatter_step (rune CHR ''%'') (True, [], f1) = (False, ''%'', f1)"
    by (simp add: NewStdFormatter_step_def verb_of_rune_percent)
  have 4: "fold NewStdFormatter_step (map rune post) (False, ''%'', f1) = (False, ''%'' @ post, f1)"
    using NewStdFormatter_step_literal [of post "''%''" f1] assms(2) by simp
  have "fold NewStdFormatter_step (range_string (pre @ ''%%'' @ post)) (False, [], f0)
      = fold NewStdFormatter_step (map rune post)
          (NewStdFormatter_step (rune CHR ''%'')
            (NewStdFormatter_step (rune CHR ''%'')
              (fold NewStdFormatter_step (map rune pre) (False, [], f0))))"
    unfolding r by simp
  also have "\<dots> = (False, ''%'' @ post, f1)"
    unfolding 1 2 3 4 ..
  finally have n: "NewStdFormatter_A (pre @ ''%%'' @ post)
      = f1\<lparr>strings := strings f1 @ [''%'' @ post], parts := parts f1 @ [vSTRING]\<rparr>"
    by (simp add: NewStdFormatter_A_def f0_def)
  show "strings (NewStdFormatter_A (pre @ ''%%'' @ post))
           = (if pre = [] then [] else [pre]) @ [''%'' @ post]"
    unfolding n by (simp add: f1_def f0_def)
  show "parts (NewStdFormatter_A (pre @ ''%%'' @ post))
           = (if pre = [] then [] else [vSTRING]) @ [vSTRING]"
    unfolding n by (simp add: f1_def f0_def)
qed



subsection \<open>What a template renders\<close>

lemma bnd_emit_nil: "bnd r (emit []) = r"
  by (cases r) (auto simp: emit_def)

lemma bnd_emit_emit: "bnd (bnd r (emit a)) (emit b) = bnd r (emit (a @ b))"
  by (cases r) (auto simp: emit_def)

lemma part_not_string:
  "p \<noteq> vSTRING \<Longrightarrow>
   Format_part_A strs data p (buf, i, t0) =
     bnd (Format_part_A [] data p (buf, 0, t0)) (\<lambda>(b, j, t1). Inr (b, i, t1))"
  by (cases p) (auto simp: bnd_def split: sum.splits prod.splits)

lemma part_not_string_index:
  assumes "p \<noteq> vSTRING" "Format_part_A strs data p (buf, i, t0) = Inr (b, j, t1)"
  shows "j = i"
  using assms(2) unfolding part_not_string [OF assms(1), of strs data buf i t0]
  by (auto simp: bnd_def split: sum.splits prod.splits)

lemma part_not_string_strs:
  "p \<noteq> vSTRING \<Longrightarrow>
   Format_part_A strs data p (buf, i, t0) = Format_part_A strs' data p (buf, i, t0)"
  using part_not_string [of p strs data buf i t0] part_not_string [of p strs' data buf i t0]
  by simp

lemma foldM_strings_prefix:
  "k + length (filter (\<lambda>p. p = vSTRING) ps) \<le> length strs \<Longrightarrow>
   foldM (Format_part_A (strs @ extra) data) ps (buf, int k, t0)
     = foldM (Format_part_A strs data) ps (buf, int k, t0) \<and>
   (\<forall>b j t1. foldM (Format_part_A strs data) ps (buf, int k, t0) = Inr (b, j, t1) \<longrightarrow>
      j = int (k + length (filter (\<lambda>p. p = vSTRING) ps)))"
proof (induction ps arbitrary: buf k t0)
  case Nil
  then show ?case by simp
next
  case (Cons p ps)
  show ?case
  proof (cases "p = vSTRING")
    case True
    with Cons.prems have k: "k < length strs"
      and le: "Suc k + length (filter (\<lambda>p. p = vSTRING) ps) \<le> length strs" by simp_all
    have 1: "Format_part_A (strs @ extra) data vSTRING (buf, int k, t0) = Inr (buf @ strs ! k, int (Suc k), t0)"
      using k by (simp add: index_def nth_append)
    have 2: "Format_part_A strs data vSTRING (buf, int k, t0) = Inr (buf @ strs ! k, int (Suc k), t0)"
      using k by (simp add: index_def)
    from Cons.IH [OF le, of "buf @ strs ! k" t0] show ?thesis
      unfolding True foldM.simps 1 2 by simp
  next
    case False
    with Cons.prems have le: "k + length (filter (\<lambda>p. p = vSTRING) ps) \<le> length strs" by simp
    have e: "Format_part_A (strs @ extra) data p (buf, int k, t0) = Format_part_A strs data p (buf, int k, t0)"
      by (rule part_not_string_strs [OF False])
    show ?thesis
    proof (cases "Format_part_A strs data p (buf, int k, t0)")
      case (Inl e')
      then show ?thesis using e by simp
    next
      case (Inr s')
      obtain b j t1 where s': "s' = (b, j, t1)" by (cases s') auto
      from part_not_string_index [OF False Inr [unfolded s']] have j: "j = int k" .
      from Cons.IH [OF le, of b t1] show ?thesis
        using e Inr False by (simp add: s' j)
    qed
  qed
qed

lemma accumulated_A_literal:
  assumes "length (strings f) = length (filter (\<lambda>p. p = vSTRING) (parts f))"
  shows "accumulated_A (f\<lparr>strings := strings f @ [s], parts := parts f @ [vSTRING]\<rparr>) data
     = bnd (accumulated_A f data) (emit s)"
proof -
  let ?n = "length (strings f)"
  from assms have le: "0 + length (filter (\<lambda>p. p = vSTRING) (parts f)) \<le> ?n" by simp
  from foldM_strings_prefix [OF le, of "[s]" data "[]" "tmp f"]
  have eq: "foldM (Format_part_A (strings f @ [s]) data) (parts f) ([], 0, tmp f)
      = foldM (Format_part_A (strings f) data) (parts f) ([], 0, tmp f)"
    and ix: "\<And>b j t1. foldM (Format_part_A (strings f) data) (parts f) ([], 0, tmp f) = Inr (b, j, t1)
      \<Longrightarrow> j = int ?n"
    using assms by simp_all
  have idx: "index (strings f @ [s]) (int ?n) = Inr s" by (simp add: index_def)
  show ?thesis
  proof (cases "foldM (Format_part_A (strings f) data) (parts f) ([], 0, tmp f)")
    case (Inl e)
    then show ?thesis by (simp add: accumulated_A_def foldM_append eq)
  next
    case (Inr s')
    obtain b j t1 where s': "s' = (b, j, t1)" by (cases s') auto
    from ix [OF Inr [unfolded s']] have j: "j = int ?n" .
    have "Format_part_A (strings f @ [s]) data vSTRING (b, int ?n, t1) = Inr (b @ s, int ?n + 1, t1)"
      unfolding Format_part_A.simps fmtVerb.case idx by simp
    then show ?thesis
      using Inr by (simp add: accumulated_A_def foldM_append eq s' j emit_def)
  qed
qed

lemma accumulated_A_verb:
  assumes "v \<noteq> vSTRING"
  shows "accumulated_A (f\<lparr>flags := x, parts := parts f @ [v]\<rparr>) data
     = bnd (accumulated_A f data) (verb_output data v)"
proof (cases "foldM (Format_part_A (strings f) data) (parts f) ([], 0, tmp f)")
  case (Inl e)
  then show ?thesis by (simp add: accumulated_A_def foldM_append)
next
  case (Inr s')
  obtain b j t1 where s': "s' = (b, j, t1)" by (cases s') auto
  show ?thesis
    using Inr part_not_string [OF assms, of "strings f" data b j t1]
    by (auto simp: accumulated_A_def foldM_append s' verb_output_def bnd_def
        split: sum.splits prod.splits)
qed

lemma fold_related:
  assumes "R s e" and "\<And>x s e. R s e \<Longrightarrow> R (f x s) (g x e)"
  shows "R (fold f xs s) (fold g xs e)"
  using assms(1) by (induction xs arbitrary: s e) (simp_all add: assms(2))

lemma expand_step_agrees:
  assumes "fst es = fst st"
    and "fst st \<longrightarrow> fst (snd st) = []"
    and "length (strings (snd (snd st))) = length (filter (\<lambda>p. p = vSTRING) (parts (snd (snd st))))"
    and "snd es = bnd (accumulated_A (snd (snd st)) data) (emit (fst (snd st)))"
  shows "fst (expand_step data c es) = fst (NewStdFormatter_step c st) \<and>
    (fst (NewStdFormatter_step c st) \<longrightarrow> fst (snd (NewStdFormatter_step c st)) = []) \<and>
    length (strings (snd (snd (NewStdFormatter_step c st))))
      = length (filter (\<lambda>p. p = vSTRING) (parts (snd (snd (NewStdFormatter_step c st))))) \<and>
    snd (expand_step data c es)
      = bnd (accumulated_A (snd (snd (NewStdFormatter_step c st))) data)
          (emit (fst (snd (NewStdFormatter_step c st))))"
proof -
  obtain isverb raw f where st: "st = (isverb, raw, f)" by (cases st) auto
  obtain r where es: "es = (isverb, r)" using assms(1) by (cases es) (auto simp: st)
  from assms have raw: "isverb \<Longrightarrow> raw = []"
    and n: "length (strings f) = length (filter (\<lambda>p. p = vSTRING) (parts f))"
    and r: "r = bnd (accumulated_A f data) (emit raw)"
    by (simp_all add: st es)
  show ?thesis
  proof (cases "\<not> isverb \<and> c = rune CHR ''%''")
    case True
    then show ?thesis
      using n r accumulated_A_literal [OF n, of raw data]
      by (simp add: st es NewStdFormatter_step_def expand_step_def bnd_emit_nil)
  next
    case False
    show ?thesis
    proof (cases isverb)
      case iv: True
      show ?thesis
      proof (cases "verb_of_rune c")
        case None
        then show ?thesis
          using False iv n r raw
          by (simp add: st es NewStdFormatter_step_def expand_step_def bnd_emit_emit bnd_emit_nil)
      next
        case (Some v)
        from verb_of_rune_not_string [OF Some] have v: "v \<noteq> vSTRING" .
        have acc: "accumulated_A (f\<lparr>flags := flags f OR fmtVerb_int v, parts := parts f @ [v]\<rparr>) data
          = bnd (accumulated_A f data) (verb_output data v)"
          by (rule accumulated_A_verb [OF v])
        show ?thesis
          using False iv n r raw Some v acc
          by (simp add: st es NewStdFormatter_step_def expand_step_def bnd_emit_nil)
      qed
    next
      case niv: False
      then show ?thesis
        using False n r
        by (simp add: st es NewStdFormatter_step_def expand_step_def bnd_emit_emit)
    qed
  qed
qed

lemma expand_agrees:
  "fst (fold (expand_step data) rs (False, Inr ([], replicate 64 (CHR 0x00))))
     = fst (fold NewStdFormatter_step rs
         (False, [], \<lparr>frmt = fr, strings = [], parts = [], tmp = replicate 64 (CHR 0x00), flags = 0\<rparr>)) \<and>
   snd (fold (expand_step data) rs (False, Inr ([], replicate 64 (CHR 0x00))))
     = (case fold NewStdFormatter_step rs
         (False, [], \<lparr>frmt = fr, strings = [], parts = [], tmp = replicate 64 (CHR 0x00), flags = 0\<rparr>)
        of (isverb, raw, f) \<Rightarrow> bnd (accumulated_A f data) (emit raw))"
proof -
  let ?R = "\<lambda>st es. fst es = fst st \<and> (fst st \<longrightarrow> fst (snd st) = []) \<and>
     length (strings (snd (snd st))) = length (filter (\<lambda>p. p = vSTRING) (parts (snd (snd st)))) \<and>
     snd es = bnd (accumulated_A (snd (snd st)) data) (emit (fst (snd st)))"
  let ?s0 = "(False, [], \<lparr>frmt = fr, strings = [], parts = [], tmp = replicate 64 (CHR 0x00), flags = 0\<rparr>)"
  let ?e0 = "(False, Inr ([], replicate 64 (CHR 0x00)))"
  have "?R (fold NewStdFormatter_step rs ?s0) (fold (expand_step data) rs ?e0)"
  proof (rule fold_related [where R = ?R])
    show "?R ?s0 ?e0" by (simp add: accumulated_A_def emit_def)
  next
    fix x s e assume "?R s e"
    then show "?R (NewStdFormatter_step x s) (expand_step data x e)"
      using expand_step_agrees [of e s data x] by blast
  qed
  then show ?thesis
    by (cases "fold NewStdFormatter_step rs ?s0") auto
qed

lemma accumulated_A_expand:
  "accumulated_A (NewStdFormatter_A t) data
     = snd (fold (expand_step data) (range_string t) (False, Inr ([], replicate 64 (CHR 0x00))))"
proof -
  let ?s0 = "(False, [], \<lparr>frmt = t, strings = [], parts = [], tmp = replicate 64 (CHR 0x00), flags = 0\<rparr>)"
  let ?R = "\<lambda>st es. fst es = fst st \<and> (fst st \<longrightarrow> fst (snd st) = []) \<and>
     length (strings (snd (snd st))) = length (filter (\<lambda>p. p = vSTRING) (parts (snd (snd st)))) \<and>
     snd es = bnd (accumulated_A (snd (snd st)) data) (emit (fst (snd st)))"
  let ?e0 = "(False, Inr ([], replicate 64 (CHR 0x00)))"
  have R: "?R (fold NewStdFormatter_step (range_string t) ?s0) (fold (expand_step data) (range_string t) ?e0)"
  proof (rule fold_related [where R = ?R])
    show "?R ?s0 ?e0" by (simp add: accumulated_A_def emit_def)
  next
    fix x s e assume "?R s e"
    then show "?R (NewStdFormatter_step x s) (expand_step data x e)"
      using expand_step_agrees [of e s data x] by blast
  qed
  obtain isverb raw f where st: "fold NewStdFormatter_step (range_string t) ?s0 = (isverb, raw, f)"
    by (cases "fold NewStdFormatter_step (range_string t) ?s0") auto
  from R have n: "length (strings f) = length (filter (\<lambda>p. p = vSTRING) (parts f))"
    and r: "snd (fold (expand_step data) (range_string t) ?e0) = bnd (accumulated_A f data) (emit raw)"
    by (simp_all add: st)
  show ?thesis
    unfolding r
    using accumulated_A_literal [OF n, of raw data]
    by (simp add: NewStdFormatter_A_def st bnd_emit_nil)
qed

lemma Format_A_accumulated:
  "Format_A f data =
     bnd (accumulated_A f data) (\<lambda>(buf, t1).
       Inr (if buf \<noteq> [] \<and> last buf \<noteq> CHR 0x0A then buf @ [CHR 0x0A] else buf))"
  by (simp add: Format_A_eq accumulated_A_def bnd_def split: sum.splits prod.splits)

lemma DecodeRuneInString_width:
  "1 \<le> snd (DecodeRuneInString (c # cs)) \<and> snd (DecodeRuneInString (c # cs)) \<le> length (c # cs)"
  by (auto simp: Let_def split: list.splits)

lemma DecodeRuneInString_before_ascii:
  "rune a < 128 \<Longrightarrow> DecodeRuneInString ((c # cs) @ a # s) = DecodeRuneInString (c # cs)"
  by (auto simp: Let_def cont_def split: list.splits)

lemma range_string_before_ascii:
  "rune a < 128 \<Longrightarrow> range_string (xs @ a # s) = range_string xs @ range_string (a # s)"
proof (induction xs rule: range_string.induct)
  case 1
  then show ?case by simp
next
  case (2 c cs)
  obtain r n where d: "DecodeRuneInString (c # cs) = (r, n)" by (cases "DecodeRuneInString (c # cs)") auto
  from DecodeRuneInString_width [of c cs, unfolded d] have n: "1 \<le> n" "n - 1 \<le> length cs"
    by auto
  have d': "DecodeRuneInString (c # cs @ a # s) = (r, n)"
    using DecodeRuneInString_before_ascii [OF "2.prems", of c cs s] d
    by (simp del: DecodeRuneInString.simps)
  have "range_string (drop (n - 1) cs @ a # s) = range_string (drop (n - 1) cs) @ range_string (a # s)"
    using "2.IH" [OF d [symmetric] "2.prems"] .
  then show ?case
    using n by (simp add: d d' del: DecodeRuneInString.simps)
qed

lemma range_string_percent: "range_string (CHR ''%'' # s) = rune CHR ''%'' # range_string s"
  by (simp add: rune_def)

lemma range_string_doubled:
  "range_string (pre @ ''%%'' @ post) = range_string pre @ rune CHR ''%'' # rune CHR ''%'' # range_string post"
  using range_string_before_ascii [of "CHR ''%''" pre "CHR ''%'' # post"]
  by (simp add: range_string_percent rune_def del: range_string.simps)

lemma expand_step_literal:
  "CHR ''%'' \<notin> set s \<Longrightarrow>
   fold (expand_step data) (map rune s) (False, r) = (False, bnd r (emit s))"
proof (induction s arbitrary: r)
  case Nil
  then show ?case by (simp add: bnd_emit_nil)
next
  case (Cons c s)
  then have "expand_step data (rune c) (False, r) = (False, bnd r (emit [c]))"
    by (auto simp: expand_step_def rune_eq_iff byte_rune)
  with Cons show ?case by (simp add: bnd_emit_emit)
qed

lemma expand_step_doubled:
  "expand_step data (rune CHR ''%'') (expand_step data (rune CHR ''%'') (False, r))
     = (False, bnd r (emit ''%''))"
  by (simp add: expand_step_def verb_of_rune_percent)

lemma NewStdFormatter_step_doubled:
  "NewStdFormatter_step (rune CHR ''%'') (NewStdFormatter_step (rune CHR ''%'') (False, raw, f))
     = (False, ''%'',
        if length raw > 0 then f\<lparr>strings := strings f @ [raw], parts := parts f @ [vSTRING]\<rparr> else f)"
  by (simp add: NewStdFormatter_step_def verb_of_rune_percent)

lemma isverb_independent:
  "fst (fold NewStdFormatter_step rs (iv, raw, f)) = fst (fold (expand_step data) rs (iv, r))"
proof (induction rs arbitrary: iv raw f r)
  case Nil
  then show ?case by simp
next
  case (Cons c rs)
  obtain iv' raw' f' where a: "NewStdFormatter_step c (iv, raw, f) = (iv', raw', f')"
    by (cases "NewStdFormatter_step c (iv, raw, f)") auto
  obtain iv'' r' where b: "expand_step data c (iv, r) = (iv'', r')"
    by (cases "expand_step data c (iv, r)") auto
  from a b have "iv'' = iv'"
    by (auto simp: NewStdFormatter_step_def expand_step_def split: if_splits option.splits)
  with Cons.IH [of iv' raw' f' r'] a b show ?case by simp
qed

lemma bnd_emit_then:
  "bnd (bnd r (emit s)) (\<lambda>(buf, t1). k buf) = bnd r (\<lambda>(buf, t1). k (buf @ s))"
  by (cases r) (auto simp: emit_def)

lemma accumulated_A_doubled:
  assumes "\<not> fst (fold NewStdFormatter_step (range_string pre) (False, [], f0))"
  shows "accumulated_A (NewStdFormatter_A (pre @ ''%%'' @ post)) data
     = snd (fold (expand_step data) (range_string post)
         (False, bnd (accumulated_A (NewStdFormatter_A pre) data) (emit ''%'')))"
proof -
  let ?e0 = "(False, Inr ([], replicate 64 (CHR 0x00)))"
  obtain iv r where e: "fold (expand_step data) (range_string pre) ?e0 = (iv, r)"
    by (cases "fold (expand_step data) (range_string pre) ?e0") auto
  from isverb_independent [of "range_string pre" False "[]" f0 data "Inr ([], replicate 64 (CHR 0x00))"]
    assms e have iv: "iv = False" by simp
  from accumulated_A_expand [of pre data] e have r: "r = accumulated_A (NewStdFormatter_A pre) data"
    by simp
  show ?thesis
    unfolding accumulated_A_expand [of "pre @ ''%%'' @ post"] range_string_doubled
    by (simp only: fold_append fold_simps comp_def e iv expand_step_doubled r)
qed

lemma Format_A_doubled_then_text:
  assumes "\<not> fst (fold NewStdFormatter_step (range_string pre) (False, [], f0))"
    and "\<forall>c\<in>set post. rune c < 128" and "CHR ''%'' \<notin> set post"
  shows "Format_A (NewStdFormatter_A (pre @ ''%%'' @ post)) data
     = bnd (accumulated_A (NewStdFormatter_A pre) data) (\<lambda>(buf, t1).
         Inr (if last (buf @ ''%'' @ post) \<noteq> CHR 0x0A
              then (buf @ ''%'' @ post) @ [CHR 0x0A] else buf @ ''%'' @ post))"
proof -
  have "accumulated_A (NewStdFormatter_A (pre @ ''%%'' @ post)) data
      = bnd (accumulated_A (NewStdFormatter_A pre) data) (emit (''%'' @ post))"
    unfolding accumulated_A_doubled [OF assms(1)] range_string_ascii [OF assms(2)]
      expand_step_literal [OF assms(3)] bnd_emit_emit by simp
  then show ?thesis
    unfolding Format_A_accumulated
    by (cases "accumulated_A (NewStdFormatter_A pre) data") (auto simp: emit_def)
qed

text \<open>
  C6, as amended. In Grammar A a doubled sentinel that starts outside a verb position
  (the compile loop has \<open>isverb = false\<close> after the text before it) compiles to a single
  literal \<open>%\<close>: the two steps of the loop flush the pending text, append no verb and
  leave exactly \<open>%\<close> as the pending literal text. It renders as a single \<open>%\<close>: the
  output accumulated for \<open>pre%%post\<close> is the output accumulated for \<open>pre\<close>, then one
  \<open>%\<close>, then what the runes of \<open>post\<close> add; when \<open>post\<close> is ASCII text without \<open>%\<close>
  the result of \<open>Format\<close> is the output of \<open>pre\<close>, then \<open>%\<close>, then \<open>post\<close>, with the
  line terminator. Here \<open>pre\<close> and \<open>post\<close> are arbitrary and may hold verbs and further
  escapes. Grammar B has no escape: \<open>%\<close> is special only as the start of \<open>%{Name}\<close>,
  so \<open>%%\<close> between text free of \<open>{\<close> is one literal segment and is rendered as the two
  characters \<open>%%\<close>.
\<close>

theorem doubled_percent:
  "NewStdFormatter_step (rune CHR ''%'') (NewStdFormatter_step (rune CHR ''%'') (False, raw, f))
     = (False, ''%'',
        if length raw > 0 then f\<lparr>strings := strings f @ [raw], parts := parts f @ [vSTRING]\<rparr> else f) \<and>
   range_string (pre @ ''%%'' @ post)
     = range_string pre @ rune CHR ''%'' # rune CHR ''%'' # range_string post \<and>
   accumulated_A (NewStdFormatter_A t) data
     = snd (fold (expand_step data) (range_string t) (False, Inr ([], replicate 64 (CHR 0x00)))) \<and>
   Format_A g data
     = bnd (accumulated_A g data) (\<lambda>(buf, t1).
         Inr (if buf \<noteq> [] \<and> last buf \<noteq> CHR 0x0A then buf @ [CHR 0x0A] else buf)) \<and>
   (\<not> fst (fold NewStdFormatter_step (range_string pre) (False, [], f0)) \<longrightarrow>
      accumulated_A (NewStdFormatter_A (pre @ ''%%'' @ post)) data
        = snd (fold (expand_step data) (range_string post)
            (False, bnd (accumulated_A (NewStdFormatter_A pre) data) (emit ''%''))) \<and>
      ((\<forall>c\<in>set post. rune c < 128) \<and> CHR ''%'' \<notin> set post \<longrightarrow>
         Format_A (NewStdFormatter_A (pre @ ''%%'' @ post)) data
           = bnd (accumulated_A (NewStdFormatter_A pre) data) (\<lambda>(buf, t1).
               Inr (if last (buf @ ''%'' @ post) \<noteq> CHR 0x0A
                    then (buf @ ''%'' @ post) @ [CHR 0x0A] else buf @ ''%'' @ post)))) \<and>
   ((\<forall>c\<in>set pre \<union> set post. rune c < 128) \<and> CHR ''%'' \<notin> set pre \<union> set post \<longrightarrow>
      concat (strings (NewStdFormatter_A (pre @ ''%%'' @ post))) = pre @ ''%'' @ post \<and>
      parts (NewStdFormatter_A (pre @ ''%%'' @ post))
        = replicate (length (strings (NewStdFormatter_A (pre @ ''%%'' @ post)))) vSTRING \<and>
      Format_A (NewStdFormatter_A (pre @ ''%%'' @ post)) data
        = Inr (if last (pre @ ''%'' @ post) \<noteq> CHR 0x0A
               then (pre @ ''%'' @ post) @ [CHR 0x0A] else pre @ ''%'' @ post)) \<and>
   (CHR ''{'' \<notin> set pre' \<union> set post' \<longrightarrow>
      strings (NewStdFormatter_B an (pre' @ ''%%'' @ post')) = [pre' @ ''%%'' @ post'] \<and>
      parts (NewStdFormatter_B an (pre' @ ''%%'' @ post')) = [vSTRING_B] \<and>
      Format_B tb (NewStdFormatter_B an (pre' @ ''%%'' @ post')) c
        = Inr (if last (pre' @ ''%%'' @ post') \<noteq> CHR 0x0A
               then (pre' @ ''%%'' @ post') @ [CHR 0x0A] else pre' @ ''%%'' @ post'))"
proof (intro conjI impI)
  show "NewStdFormatter_step (rune CHR ''%'') (NewStdFormatter_step (rune CHR ''%'') (False, raw, f))
     = (False, ''%'',
        if length raw > 0 then f\<lparr>strings := strings f @ [raw], parts := parts f @ [vSTRING]\<rparr> else f)"
    by (rule NewStdFormatter_step_doubled)
  show "range_string (pre @ ''%%'' @ post)
     = range_string pre @ rune CHR ''%'' # rune CHR ''%'' # range_string post"
    by (rule range_string_doubled)
  show "accumulated_A (NewStdFormatter_A t) data
     = snd (fold (expand_step data) (range_string t) (False, Inr ([], replicate 64 (CHR 0x00))))"
    by (rule accumulated_A_expand)
  show "Format_A g data
     = bnd (accumulated_A g data) (\<lambda>(buf, t1).
         Inr (if buf \<noteq> [] \<and> last buf \<noteq> CHR 0x0A then buf @ [CHR 0x0A] else buf))"
    by (rule Format_A_accumulated)
next
  assume v: "\<not> fst (fold NewStdFormatter_step (range_string pre) (False, [], f0))"
  show "accumulated_A (NewStdFormatter_A (pre @ ''%%'' @ post)) data
        = snd (fold (expand_step data) (range_string post)
            (False, bnd (accumulated_A (NewStdFormatter_A pre) data) (emit ''%'')))"
    by (rule accumulated_A_doubled [OF v])
  assume p: "(\<forall>c\<in>set post. rune c < 128) \<and> CHR ''%'' \<notin> set post"
  show "Format_A (NewStdFormatter_A (pre @ ''%%'' @ post)) data
           = bnd (accumulated_A (NewStdFormatter_A pre) data) (\<lambda>(buf, t1).
               Inr (if last (buf @ ''%'' @ post) \<noteq> CHR 0x0A
                    then (buf @ ''%'' @ post) @ [CHR 0x0A] else buf @ ''%'' @ post))"
    by (rule Format_A_doubled_then_text [OF v p [THEN conjunct1] p [THEN conjunct2]])
next
  assume a: "(\<forall>c\<in>set pre \<union> set post. rune c < 128) \<and> CHR ''%'' \<notin> set pre \<union> set post"
  note s = NewStdFormatter_A_doubled [OF a [THEN conjunct1] a [THEN conjunct2]]
  show c: "concat (strings (NewStdFormatter_A (pre @ ''%%'' @ post))) = pre @ ''%'' @ post"
    using s(1) by simp
  show p: "parts (NewStdFormatter_A (pre @ ''%%'' @ post))
        = replicate (length (strings (NewStdFormatter_A (pre @ ''%%'' @ post)))) vSTRING"
    using s by simp
  show "Format_A (NewStdFormatter_A (pre @ ''%%'' @ post)) data
        = Inr (if last (pre @ ''%'' @ post) \<noteq> CHR 0x0A
               then (pre @ ''%'' @ post) @ [CHR 0x0A] else pre @ ''%'' @ post)"
    unfolding Format_A_literal [OF p] c by simp
next
  assume a: "CHR ''{'' \<notin> set pre' \<union> set post'"
  then have "CHR ''{'' \<notin> set (pre' @ ''%%'' @ post')" by simp
  then have m: "FindAllStringSubmatchIndex (pre' @ ''%%'' @ post') 0 = []"
    by (rule FindAll_no_brace)
  note s = NewStdFormatter_B_literal [OF m, of an]
  show st: "strings (NewStdFormatter_B an (pre' @ ''%%'' @ post')) = [pre' @ ''%%'' @ post']"
    using s(1) by simp
  show p: "parts (NewStdFormatter_B an (pre' @ ''%%'' @ post')) = [vSTRING_B]"
    using s(2) by simp
  have p': "parts (NewStdFormatter_B an (pre' @ ''%%'' @ post'))
      = replicate (length (strings (NewStdFormatter_B an (pre' @ ''%%'' @ post')))) vSTRING_B"
    using st p by simp
  show "Format_B tb (NewStdFormatter_B an (pre' @ ''%%'' @ post')) c
        = Inr (if last (pre' @ ''%%'' @ post') \<noteq> CHR 0x0A
               then (pre' @ ''%%'' @ post') @ [CHR 0x0A] else pre' @ ''%%'' @ post')"
    unfolding Format_B_literal [OF p'] st by simp
qed

theorem doubled_percent_witness:
  "Format_A (NewStdFormatter_A ''%L%%'') fmtTestsData = Inr (''PANIC%'' @ [CHR 0x0A]) \<and>
   Format_A (NewStdFormatter_A ''a%%b%%c'') fmtTestsData = Inr (''a%b%c'' @ [CHR 0x0A]) \<and>
   bnd (accumulated_A
          (NewStdFormatter_A ''%p-%P [%D]%%[%d]%%[%T][%t] [%L:%l:%F:%f:%x:%s] %%%M%%'') fmtTestsData)
       (\<lambda>(buf, t1). Inr buf)
     = Inr ''pkg-pkg.func [2014-01-08]%[2014/01/08]%[18:27:14.123456][18:27:14] [PANIC:PANC:/path/to/testing.go:testing.go:testing:391] %hello there!%'' \<and>
   Format_A (NewStdFormatter_A ''100%% done'') fmtTestsData = Inr (''100% done'' @ [CHR 0x0A]) \<and>
   Format_B test_tables (NewStdFormatter_B test_ansi ''100%% done'') fmtTestsContext
     = Inr (''100%% done'' @ [CHR 0x0A])"
proof -
  let ?f0 = "NewStdFormatter_A []"
  have v1: "\<not> fst (fold NewStdFormatter_step (range_string ''%L'') (False, [], ?f0))" by code_simp
  have a1: "accumulated_A (NewStdFormatter_A ''%L'') fmtTestsData = Inr (''PANIC'', replicate 64 (CHR 0x00))"
    by code_simp
  have p1: "(\<forall>c\<in>set []. rune c < 128) \<and> CHR ''%'' \<notin> set []" by simp
  note t1 = doubled_percent [where pre = "''%L''" and post = "[]" and ?f0.0 = ?f0
        and data = fmtTestsData, THEN conjunct2, THEN conjunct2, THEN conjunct2, THEN conjunct2,
        THEN conjunct1, THEN mp, OF v1, THEN conjunct2, THEN mp, OF p1]
  have 1: "Format_A (NewStdFormatter_A ''%L%%'') fmtTestsData = Inr (''PANIC%'' @ [CHR 0x0A])"
    using t1 unfolding a1 by simp
  have v2: "\<not> fst (fold NewStdFormatter_step (range_string ''a%%b'') (False, [], ?f0))" by code_simp
  have a2: "accumulated_A (NewStdFormatter_A ''a%%b'') fmtTestsData = Inr (''a%b'', replicate 64 (CHR 0x00))"
    by code_simp
  have p2: "(\<forall>c\<in>set ''c''. rune c < 128) \<and> CHR ''%'' \<notin> set ''c''" by (simp add: rune_def)
  note t2 = doubled_percent [where pre = "''a%%b''" and post = "''c''" and ?f0.0 = ?f0
        and data = fmtTestsData, THEN conjunct2, THEN conjunct2, THEN conjunct2, THEN conjunct2,
        THEN conjunct1, THEN mp, OF v2, THEN conjunct2, THEN mp, OF p2]
  have 2: "Format_A (NewStdFormatter_A ''a%%b%%c'') fmtTestsData = Inr (''a%b%c'' @ [CHR 0x0A])"
    using t2 unfolding a2 by simp
  have v3: "\<not> fst (fold NewStdFormatter_step (range_string ''%p-%P [%D]'') (False, [], ?f0))"
    by code_simp
  have r3: "bnd (snd (fold (expand_step fmtTestsData)
                 (range_string ''[%d]%%[%T][%t] [%L:%l:%F:%f:%x:%s] %%%M%%'')
                 (False, bnd (accumulated_A (NewStdFormatter_A ''%p-%P [%D]'') fmtTestsData) (emit ''%''))))
              (\<lambda>(buf, t1). Inr buf)
     = Inr ''pkg-pkg.func [2014-01-08]%[2014/01/08]%[18:27:14.123456][18:27:14] [PANIC:PANC:/path/to/testing.go:testing.go:testing:391] %hello there!%''"
    by code_simp
  note t3 = doubled_percent [where pre = "''%p-%P [%D]''"
        and post = "''[%d]%%[%T][%t] [%L:%l:%F:%f:%x:%s] %%%M%%''" and ?f0.0 = ?f0
        and data = fmtTestsData, THEN conjunct2, THEN conjunct2, THEN conjunct2, THEN conjunct2,
        THEN conjunct1, THEN mp, OF v3, THEN conjunct1]
  have e3: "accumulated_A
          (NewStdFormatter_A ''%p-%P [%D]%%[%d]%%[%T][%t] [%L:%l:%F:%f:%x:%s] %%%M%%'') fmtTestsData
      = snd (fold (expand_step fmtTestsData)
                 (range_string ''[%d]%%[%T][%t] [%L:%l:%F:%f:%x:%s] %%%M%%'')
                 (False, bnd (accumulated_A (NewStdFormatter_A ''%p-%P [%D]'') fmtTestsData) (emit ''%'')))"
    using t3 by (simp only: append_Cons append_Nil)
  have 3: "bnd (accumulated_A
          (NewStdFormatter_A ''%p-%P [%D]%%[%d]%%[%T][%t] [%L:%l:%F:%f:%x:%s] %%%M%%'') fmtTestsData)
       (\<lambda>(buf, t1). Inr buf)
     = Inr ''pkg-pkg.func [2014-01-08]%[2014/01/08]%[18:27:14.123456][18:27:14] [PANIC:PANC:/path/to/testing.go:testing.go:testing:391] %hello there!%''"
    unfolding e3 by (rule r3)
  have a: "(\<forall>c\<in>set ''100'' \<union> set '' done''. rune c < 128) \<and> CHR ''%'' \<notin> set ''100'' \<union> set '' done''"
    by (simp add: rune_def)
  have b: "CHR ''{'' \<notin> set ''100'' \<union> set '' done''" by simp
  note t4 = doubled_percent [where pre = "''100''" and post = "'' done''" and data = fmtTestsData
        and pre' = "''100''" and post' = "'' done''" and an = test_ansi and tb = test_tables
        and c = fmtTestsContext, THEN conjunct2, THEN conjunct2, THEN conjunct2, THEN conjunct2,
        THEN conjunct2]
  have 4: "Format_A (NewStdFormatter_A ''100%% done'') fmtTestsData = Inr (''100% done'' @ [CHR 0x0A])"
    using t4 [THEN conjunct1, THEN mp, OF a] by simp
  have 5: "Format_B test_tables (NewStdFormatter_B test_ansi ''100%% done'') fmtTestsContext
     = Inr (''100%% done'' @ [CHR 0x0A])"
    using t4 [THEN conjunct2, THEN mp, OF b] by simp
  from 1 2 3 4 5 show ?thesis by blast
qed

theorem doubled_percent_counterexample:
  "Format_B test_tables (NewStdFormatter_B test_ansi ''%%'') fmtTestsContext = Inr (''%%'' @ [CHR 0x0A]) \<and>
   Format_B test_tables (NewStdFormatter_B test_ansi ''%%'') fmtTestsContext \<noteq> Inr (''%'' @ [CHR 0x0A])"
  by code_simp

text \<open>
  C5, as amended. A template without verbs is rendered as it stands, followed by a
  newline if it is non-empty and does not end in one; the empty template is rendered
  as the empty output. In Grammar A this is stated for the ASCII templates without
  \<open>%\<close>, in Grammar B for the templates in which \<open>formatRe\<close> has no match, among them
  all templates without \<open>%\<close>.
\<close>

theorem literal_template_round_trip:
  "((\<forall>c\<in>set t. rune c < 128) \<and> CHR ''%'' \<notin> set t \<longrightarrow>
      Format_A (NewStdFormatter_A t) data
        = Inr (if t \<noteq> [] \<and> last t \<noteq> CHR 0x0A then t @ [CHR 0x0A] else t)) \<and>
   (FindAllStringSubmatchIndex t' 0 = [] \<longrightarrow>
      Format_B tb (NewStdFormatter_B an t') c
        = Inr (if t' \<noteq> [] \<and> last t' \<noteq> CHR 0x0A then t' @ [CHR 0x0A] else t')) \<and>
   (CHR ''%'' \<notin> set t' \<longrightarrow> FindAllStringSubmatchIndex t' 0 = [])"
proof (intro conjI impI)
  assume a: "(\<forall>c\<in>set t. rune c < 128) \<and> CHR ''%'' \<notin> set t"
  note s = NewStdFormatter_A_literal [OF a [THEN conjunct1] a [THEN conjunct2]]
  have p: "parts (NewStdFormatter_A t) = replicate (length (strings (NewStdFormatter_A t))) vSTRING"
    by (subst s(1), subst s(2)) (cases "t = []", simp_all)
  show "Format_A (NewStdFormatter_A t) data
        = Inr (if t \<noteq> [] \<and> last t \<noteq> CHR 0x0A then t @ [CHR 0x0A] else t)"
    by (subst Format_A_literal [OF p], (subst s(1))+) (cases "t = []", simp_all)
next
  assume m: "FindAllStringSubmatchIndex t' 0 = []"
  note s = NewStdFormatter_B_literal [OF m, of an]
  have p: "parts (NewStdFormatter_B an t')
      = replicate (length (strings (NewStdFormatter_B an t'))) vSTRING_B"
    by (subst s(1), subst s(2)) (cases "t' = []", simp_all)
  show "Format_B tb (NewStdFormatter_B an t') c
        = Inr (if t' \<noteq> [] \<and> last t' \<noteq> CHR 0x0A then t' @ [CHR 0x0A] else t')"
    by (subst Format_B_literal [OF p], (subst s(1))+) (cases "t' = []", simp_all)
next
  assume "CHR ''%'' \<notin> set t'"
  then show "FindAllStringSubmatchIndex t' 0 = []" by (rule FindAll_no_percent)
qed

theorem literal_template_round_trip_witness:
  "Format_A (NewStdFormatter_A ''just text here'') fmtTestsData = Inr (''just text here'' @ [CHR 0x0A]) \<and>
   FindAllStringSubmatchIndex ''just text here'' 0 = [] \<and>
   Format_B test_tables (NewStdFormatter_B test_ansi ''just text here'') fmtTestsContext
     = Inr (''just text here'' @ [CHR 0x0A])"
proof -
  have a: "(\<forall>c\<in>set ''just text here''. rune c < 128) \<and> CHR ''%'' \<notin> set ''just text here''"
    by (simp add: rune_def)
  show ?thesis
    using literal_template_round_trip [of "''just text here''" fmtTestsData "''just text here''"
        test_tables test_ansi fmtTestsContext] a
    by simp
qed

theorem literal_template_counterexample:
  "Format_A (NewStdFormatter_A '''') fmtTestsData = Inr [] \<and>
   Format_A (NewStdFormatter_A '''') fmtTestsData \<noteq> Inr ('''' @ [CHR 0x0A]) \<and>
   Format_B test_tables (NewStdFormatter_B test_ansi '''') fmtTestsContext \<noteq> Inr ('''' @ [CHR 0x0A]) \<and>
   Format_A (NewStdFormatter_A [CHR 0xC3, CHR 0xA9]) fmtTestsData = Inr [CHR 0xE9, CHR 0x0A]"
  by code_simp

end
